theory Spec2Isabelle
  imports Complex_Main "HOL-Library.Log_Nat"
begin

section \<open>Rise Beat: alarm scheduling and playlist playback (src/app/page.tsx)\<close>

text \<open>
  The source file holds two revisions of the page component. The current one
  (\<^verbatim>\<open>calculateNextTrigger\<close>, \<^verbatim>\<open>startPlayback\<close>, IndexedDB blobs, progress
  snapshot) is modelled under the source's names. The earlier one
  (\<^verbatim>\<open>computeNextTrigger\<close>, \<^verbatim>\<open>beginPlayback\<close>) is modelled where a property is
  about it; the names it shares with the current revision carry the suffix
  \<open>1\<close>.

  Conventions of the embedding:
  \<^item> an instant is the integer number of milliseconds since the epoch, as
    \<^verbatim>\<open>Date.getTime()\<close> returns it; the time value of an invalid date (\<^verbatim>\<open>NaN\<close>) is
    \<open>None\<close>;
  \<^item> an event handler or effect runs to completion at one clock reading \<open>now\<close>;
  \<^item> the local time zone is a parameter \<open>z\<close>: a table of offsets and the instants
    at which they change, read as ECMAScript's \<^verbatim>\<open>LocalTime\<close> and \<^verbatim>\<open>UTC\<close> read it;
  \<^item> JavaScript numbers that are not instants (durations, playback position) are
    the real numbers that are IEEE 754 doubles, and each arithmetic operation
    rounds its exact result to the nearest double;
  \<^item> \<^verbatim>\<open>null\<close> and \<^verbatim>\<open>undefined\<close> are \<open>None\<close>;
  \<^item> a string holds code units below 256.
\<close>

subsection \<open>Numbers\<close>

text \<open>
  A finite double is a real number \<open>k * 2\<^sup>j\<close> with \<open>\<bar>k\<bar> \<le> 2\<^sup>5\<^sup>3\<close> and \<open>j \<ge> -1074\<close>.
  \<open>exponent x\<close> is the binary exponent of a positive \<open>x\<close>, the \<open>e\<close> with
  \<open>2\<^sup>e \<le> x < 2\<^sup>e\<^sup>+\<^sup>1\<close>; \<open>ulp x\<close> is the distance between the doubles around \<open>x\<close>
  (a significand of 53 bits; below \<open>2\<^sup>-\<^sup>1\<^sup>0\<^sup>2\<^sup>2\<close> the doubles are subnormal and
  \<open>2\<^sup>-\<^sup>1\<^sup>0\<^sup>7\<^sup>4\<close> apart).
\<close>

definition exponent :: "real \<Rightarrow> int" where
  "exponent x = (if 1 \<le> x then bitlen \<lfloor>x\<rfloor> - 1 else - bitlen (\<lceil>1 / x\<rceil> - 1))"

definition ulp :: "real \<Rightarrow> real" where
  "ulp x = 2 powi (max (exponent \<bar>x\<bar>) (- 1022) - 52)"

text \<open>The nearest integer, the even one of the two when \<open>y\<close> is half way.\<close>

definition round_even :: "real \<Rightarrow> int" where
  "round_even y =
     (let f = \<lfloor>y\<rfloor>
      in if y - of_int f < 1 / 2 then f
         else if 1 / 2 < y - of_int f then f + 1
         else if even f then f else f + 1)"

text \<open>
  \<open>dbl x\<close> is the double nearest to \<open>x\<close>, ties to the even significand: the rounding
  of IEEE 754 that every arithmetic operation of JavaScript applies to its exact
  result. The exponent is not bounded above here: a result whose magnitude reaches
  \<open>2\<^sup>1\<^sup>0\<^sup>2\<^sup>4\<close> is \<^verbatim>\<open>Infinity\<close> in JavaScript, which the date functions below test
  with \<open>finite_number\<close>; the progress arithmetic is modelled for finite results.
\<close>

definition dbl :: "real \<Rightarrow> real" where
  "dbl x = (if x = 0 then 0 else ulp x * of_int (round_even (x / ulp x)))"

text \<open>The operators \<^verbatim>\<open>+\<close>, \<^verbatim>\<open>-\<close>, \<^verbatim>\<open>*\<close> and \<^verbatim>\<open>/\<close> on doubles.\<close>

definition fadd :: "real \<Rightarrow> real \<Rightarrow> real" where
  "fadd x y = dbl (x + y)"

definition fsub :: "real \<Rightarrow> real \<Rightarrow> real" where
  "fsub x y = dbl (x - y)"

definition fmul :: "real \<Rightarrow> real \<Rightarrow> real" where
  "fmul x y = dbl (x * y)"

definition fdiv :: "real \<Rightarrow> real \<Rightarrow> real" where
  "fdiv x y = dbl (x / y)"

text \<open>
  The Number for a mathematical integer: the nearest double, which is an integer
  again, or \<open>None\<close> when it is infinite.
\<close>

definition finite_number :: "int \<Rightarrow> int option" where
  "finite_number n =
     (let y = dbl (of_int n) in if 2 ^ 1024 \<le> \<bar>y\<bar> then None else Some \<lfloor>y\<rfloor>)"

subsection \<open>Dates\<close>

definition msPerDay :: int where
  "msPerDay = 86400000"

definition msPerHour :: int where
  "msPerHour = 3600000"

definition msPerMinute :: int where
  "msPerMinute = 60000"

text \<open>
  The local time zone as the engine knows it: the offset from UTC (milliseconds
  east of it) in force before the first transition, and the transitions in order
  of time, each the instant at which the offset changes and the offset from then
  on. New York in 2024 is \<open>base = -18000000\<close> with the two transitions
  \<open>(1710054000000, -14400000)\<close> and \<open>(1730613600000, -18000000)\<close>.
\<close>

record Zone =
  base :: int
  transitions :: "(int \<times> int) list"

text \<open>The offset in force at the instant \<open>u\<close>, and ECMAScript's \<^verbatim>\<open>LocalTime(t)\<close>.\<close>

definition offsetAt :: "Zone \<Rightarrow> int \<Rightarrow> int" where
  "offsetAt z u =
     foldl (\<lambda>off (T, off'). if T \<le> u then off' else off) (base z) (transitions z)"

definition LocalTime :: "Zone \<Rightarrow> int \<Rightarrow> int" where
  "LocalTime z t = t + offsetAt z t"

text \<open>
  ECMAScript's \<^verbatim>\<open>UTC(t)\<close>, from a local time value to an instant. The instants
  whose local time is \<open>tloc\<close> are \<open>possibleInstants z tloc\<close>, in ascending order: two
  when the clocks were set back over \<open>tloc\<close>, none when they were set forward over it.
  The first one is taken. When there is none, \<open>tloc\<close> is read with the offset in force
  at the last instant of the last local time before \<open>tloc\<close> that exists (\<open>tBefore\<close>),
  which is the local time of the millisecond before some transition. The offset
  \<open>base z\<close> stands where the standard has no case (\<open>tBefore\<close> exists whenever no
  instant has the local time \<open>tloc\<close>).
\<close>

definition possibleInstants :: "Zone \<Rightarrow> int \<Rightarrow> int list" where
  "possibleInstants z tloc =
     sort (remdups (filter (\<lambda>u. LocalTime z u = tloc)
                      (map (\<lambda>off. tloc - off) (base z # map snd (transitions z)))))"

definition tBefore :: "Zone \<Rightarrow> int \<Rightarrow> int option" where
  "tBefore z tloc =
     (case filter (\<lambda>l. l < tloc) (map (\<lambda>(T, off). LocalTime z (T - 1)) (transitions z)) of
        [] \<Rightarrow> None
      | l # ls \<Rightarrow> Some (fold max ls l))"

definition UTC :: "Zone \<Rightarrow> int \<Rightarrow> int" where
  "UTC z tloc =
     (case possibleInstants z tloc of
        u # us \<Rightarrow> tloc - offsetAt z u
      | [] \<Rightarrow>
          (case tBefore z tloc of
             None \<Rightarrow> tloc - base z
           | Some b \<Rightarrow>
               (case possibleInstants z b of
                  [] \<Rightarrow> tloc - base z
                | v # vs \<Rightarrow> tloc - offsetAt z (last (v # vs)))))"

text \<open>
  \<^verbatim>\<open>TimeClip\<close>: a time value more than \<open>8.64 * 10\<^sup>1\<^sup>5\<close> ms from the epoch is \<^verbatim>\<open>NaN\<close>.
\<close>

definition maxTime :: int where
  "maxTime = 8640000000000000"

definition TimeClip :: "int \<Rightarrow> int option" where
  "TimeClip t = (if maxTime < \<bar>t\<bar> then None else Some t)"

text \<open>
  \<^verbatim>\<open>MakeTime(hour, min, 0, 0)\<close> and \<^verbatim>\<open>MakeDate(day, time)\<close>, in double arithmetic; a
  result that is not finite is \<^verbatim>\<open>NaN\<close> (\<open>None\<close>). As in ECMAScript the fields are not
  reduced: hour 25 lands on the next day.
\<close>

definition MakeTime :: "int \<Rightarrow> int \<Rightarrow> int option" where
  "MakeTime hour minute =
     (case finite_number (hour * msPerHour) of
        None \<Rightarrow> None
      | Some a \<Rightarrow>
          (case finite_number (minute * msPerMinute) of
             None \<Rightarrow> None
           | Some b \<Rightarrow> finite_number (a + b)))"

definition MakeDate :: "int \<Rightarrow> int \<Rightarrow> int option" where
  "MakeDate day time =
     (case finite_number (day * msPerDay) of
        None \<Rightarrow> None
      | Some d \<Rightarrow> finite_number (d + time))"

text \<open>
  \<^verbatim>\<open>Day(t)\<close>, the floor of the quotient \<^verbatim>\<open>t / msPerDay\<close> in doubles, and
  \<^verbatim>\<open>TimeWithinDay(t)\<close>.
\<close>

definition Day :: "int \<Rightarrow> int" where
  "Day t = \<lfloor>fdiv (of_int t) (of_int msPerDay)\<rfloor>"

definition TimeWithinDay :: "int \<Rightarrow> int" where
  "TimeWithinDay t = t mod msPerDay"

text \<open>
  \<^verbatim>\<open>d.setHours(hour, min, 0, 0)\<close> on a valid date with time value \<open>t\<close>: the local day
  of \<open>t\<close> is kept and the time within the day becomes \<open>hour:min:00.000\<close>; the new time
  value is \<^verbatim>\<open>TimeClip(UTC(MakeDate(Day(LocalTime(t)), MakeTime(hour, min, 0, 0))))\<close>.
\<close>

definition setHours :: "Zone \<Rightarrow> int \<Rightarrow> int \<Rightarrow> int \<Rightarrow> int option" where
  "setHours z t hour minute =
     (case MakeTime hour minute of
        None \<Rightarrow> None
      | Some time \<Rightarrow>
          (case MakeDate (Day (LocalTime z t)) time of
             None \<Rightarrow> None
           | Some date \<Rightarrow> TimeClip (UTC z date)))"

text \<open>
  \<^verbatim>\<open>d.setDate(d.getDate() + 1)\<close> on a valid date: the new time value is
  \<^verbatim>\<open>TimeClip(UTC(MakeDate(MakeDay(year, month, date + 1), TimeWithinDay(LocalTime(t)))))\<close>,
  where \<^verbatim>\<open>MakeDay\<close> of the year and month of the local day and one more than its day
  of the month is the day number after \<^verbatim>\<open>Day(LocalTime(t))\<close>. So the wall clock reads
  the same on the next calendar day, which is not always 24 hours later.
\<close>

definition addOneDay :: "Zone \<Rightarrow> int \<Rightarrow> int option" where
  "addOneDay z t =
     (let tloc = LocalTime z t
      in case MakeDate (Day tloc + 1) (TimeWithinDay tloc) of
           None \<Rightarrow> None
         | Some date \<Rightarrow> TimeClip (UTC z date))"

text \<open>
  The hour and the minute that the local wall clock shows at the instant \<open>t\<close>, and the
  milliseconds into that minute.
\<close>

definition getHours :: "Zone \<Rightarrow> int \<Rightarrow> int" where
  "getHours z t = (LocalTime z t mod msPerDay) div msPerHour"

definition getMinutes :: "Zone \<Rightarrow> int \<Rightarrow> int" where
  "getMinutes z t = (LocalTime z t mod msPerHour) div msPerMinute"

definition msIntoMinute :: "Zone \<Rightarrow> int \<Rightarrow> int" where
  "msIntoMinute z t = LocalTime z t mod msPerMinute"

subsection \<open>Time strings\<close>

definition is_digit :: "char \<Rightarrow> bool" where
  "is_digit c = (48 \<le> (of_char c :: nat) \<and> (of_char c :: nat) \<le> 57)"

definition digit_val :: "char \<Rightarrow> int" where
  "digit_val c = int (of_char c) - 48"

text \<open>The regular expression \<^verbatim>\<open>/^\d{2}:\d{2}$/\<close>.\<close>

fun matches_hhmm :: "string \<Rightarrow> bool" where
  "matches_hhmm [a, b, c, d, e] =
     (is_digit a \<and> is_digit b \<and> c = CHR '':'' \<and> is_digit d \<and> is_digit e)"
| "matches_hhmm _ = False"

text \<open>\<^verbatim>\<open>time.split(":")\<close>: the pieces between the colons; always at least one piece.\<close>

fun split_colon :: "string \<Rightarrow> string list" where
  "split_colon [] = [[]]"
| "split_colon (c # cs) =
     (if c = CHR '':'' then [] # split_colon cs
      else (case split_colon cs of
              [] \<Rightarrow> [[c]]
            | w # ws \<Rightarrow> (c # w) # ws))"

text \<open>The value of a string of decimal digits, most significant digit first.\<close>

definition decimal :: "string \<Rightarrow> int" where
  "decimal ds = foldl (\<lambda>acc c. acc * 10 + digit_val c) 0 ds"

text \<open>
  \<^verbatim>\<open>Number(s)\<close>, on the strings that reach it in \<^verbatim>\<open>calculateNextTrigger\<close>: behind the
  pattern test every piece is a string of digits, and its value is the Number for
  the integer they denote. Any other piece is \<^verbatim>\<open>NaN\<close> here (\<open>None\<close>).
\<close>

definition Number :: "string \<Rightarrow> int option" where
  "Number s = (if s \<noteq> [] \<and> list_all is_digit s then finite_number (decimal s) else None)"

subsection \<open>calculateNextTrigger (current revision)\<close>

text \<open>
  \<^verbatim>\<open>
  function calculateNextTrigger(time: string) {
    if (!time || !/^\d{2}:\d{2}$/.test(time)) return null;
    const [hour, minute] = time.split(":").map(Number);
    const now = new Date();
    const candidate = new Date();
    candidate.setHours(hour, minute, 0, 0);
    if (candidate.getTime() <= now.getTime()) {
      candidate.setDate(candidate.getDate() + 1);
    }
    return candidate;
  }
  \<close>
\<close>

text \<open>
  The result is \<open>None\<close> for \<^verbatim>\<open>null\<close>, \<open>Some None\<close> for an invalid \<^verbatim>\<open>Date\<close> and
  \<open>Some (Some t)\<close> for the \<^verbatim>\<open>Date\<close> of the instant \<open>t\<close>. \<^verbatim>\<open>NaN <= x\<close> is false, so an
  invalid candidate is returned as it is.
\<close>

definition calculateNextTrigger :: "Zone \<Rightarrow> int \<Rightarrow> string \<Rightarrow> int option option" where
  "calculateNextTrigger z now time =
     (if time = [] \<or> \<not> matches_hhmm time then None
      else Some (case map Number (split_colon time) of
                   Some hour # Some minute # _ \<Rightarrow>
                     (case setHours z now hour minute of
                        None \<Rightarrow> None
                      | Some candidate \<Rightarrow>
                          if candidate \<le> now then addOneDay z candidate else Some candidate)
                 | _ \<Rightarrow> None))"

subsection \<open>computeNextTrigger (earlier revision)\<close>

text \<open>
  \<^verbatim>\<open>parseInt(s, 10)\<close>: leading white space is skipped, one sign is read, then the
  longest run of decimal digits; the result is the Number for the integer they
  denote. \<open>None\<close> is \<^verbatim>\<open>NaN\<close> (no digit) and also \<^verbatim>\<open>Infinity\<close> (\<^verbatim>\<open>MakeTime\<close> turns both
  into \<^verbatim>\<open>NaN\<close>). White space is ECMAScript's white space and line terminators
  below 256: TAB, LF, VT, FF, CR, the space and the no-break space U+00A0. Past
  the twentieth digit the standard lets an engine read zeros; every digit counts
  here.
\<close>

definition is_space :: "char \<Rightarrow> bool" where
  "is_space c = ((of_char c :: nat) \<in> {9, 10, 11, 12, 13, 32, 160})"

definition parseInt10 :: "string \<Rightarrow> int option" where
  "parseInt10 s =
     (let t = dropWhile is_space s;
          neg = (case t of [] \<Rightarrow> False | c # _ \<Rightarrow> c = CHR ''-'');
          u = (case t of [] \<Rightarrow> [] | c # r \<Rightarrow> if c = CHR ''-'' \<or> c = CHR ''+'' then r else t);
          z = takeWhile is_digit u
      in if z = [] then None else finite_number (if neg then - decimal z else decimal z))"

text \<open>
  \<^verbatim>\<open>
  const computeNextTrigger = useCallback((time: string) => {
    const [hours, minutes] = time.split(":").map((value) => parseInt(value, 10));
    const now = new Date();
    const target = new Date();
    target.setHours(hours, minutes, 0, 0);
    if (target.getTime() <= now.getTime()) {
      target.setDate(target.getDate() + 1);
    }
    return target.getTime();
  }, []);
  \<close>
  A missing or unparsable field makes the date invalid and the result \<^verbatim>\<open>NaN\<close>,
  which is \<open>None\<close> here.
\<close>

definition computeNextTrigger :: "Zone \<Rightarrow> int \<Rightarrow> string \<Rightarrow> int option" where
  "computeNextTrigger z now time =
     (case map parseInt10 (split_colon time) of
        Some hours # Some minutes # _ \<Rightarrow>
          (case setHours z now hours minutes of
             None \<Rightarrow> None
           | Some target \<Rightarrow> if target \<le> now then addOneDay z target else Some target)
      | _ \<Rightarrow> None)"

text \<open>The two-digit rendering of an hour or a minute, and the string \<open>HH:MM\<close>.\<close>

definition digit_char :: "nat \<Rightarrow> char" where
  "digit_char n = char_of (48 + n)"

definition two_digits :: "nat \<Rightarrow> string" where
  "two_digits n = [digit_char (n div 10), digit_char (n mod 10)]"

definition hhmm :: "nat \<Rightarrow> nat \<Rightarrow> string" where
  "hhmm h m = two_digits h @ '':'' @ two_digits m"

subsection \<open>Data model (current revision)\<close>

datatype MediaKind = Audio | Video

record MediaFile =
  id_f :: string
  name_f :: string
  mimeType :: string
  kind :: MediaKind
  createdAt :: string
  durationSec :: "real option"
  hasBlob :: "bool option"

record Playlist =
  id_p :: string
  name_p :: string
  fileIds :: "string list"

text \<open>
  \<^verbatim>\<open>nextTrigger\<close> is an ISO string written by \<^verbatim>\<open>toISOString\<close> and read back by
  \<^verbatim>\<open>new Date(...).getTime()\<close>; the model keeps the instant it denotes. The earlier
  revision stores the instant itself, so both revisions share this record.
\<close>

record AlarmSetting =
  time :: string
  playlistId :: "string option"
  memo :: string
  isOn :: bool
  nextTrigger :: "int option"

definition DEFAULT_ALARM :: AlarmSetting where
  "DEFAULT_ALARM =
     \<lparr>time = ''07:00'', playlistId = None, memo = [], isOn = False, nextTrigger = None\<rparr>"

text \<open>The status texts of the page, one constructor for each literal of the source.\<close>

datatype message =
    Waiting
  | NoPlayableTracks
  | TapToStartOnIPhone
  | StartedFromAlarm
  | Started
  | PlaylistFinished
  | TapButtonToStart
  | NowPlaying
  | AutoplayFailed
  | SelectPlaylist
  | SelectNonEmptyPlaylist
  | NoPlayableFiles
  | Reason string

record Progress =
  remaining :: real
  percent :: int

record MediaElement =
  currentTime :: real
  paused :: bool

text \<open>
  A pending \<^verbatim>\<open>setTimeout\<close>: its delay and what the callback closed over (the
  playlist to start and the alarm's time string).
\<close>

record Timer =
  delay :: int
  firePlaylistId :: string
  fireTime :: string

text \<open>
  The state of the \<^verbatim>\<open>Home\<close> component: its \<^verbatim>\<open>useState\<close> cells, its refs
  (\<open>sessionUrls\<close>, \<open>alarmTimeoutRef\<close>, \<open>element\<close> for \<^verbatim>\<open>mediaElementRef\<close>) and the
  parts of the browser it talks to: the pending timers with the last handle
  handed out, and the ids that have a blob in IndexedDB.
\<close>

record Home =
  ready :: bool
  mediaFiles :: "MediaFile list"
  playlists :: "Playlist list"
  alarm :: AlarmSetting
  editingPlaylist :: "Playlist option"
  needsManualPlay :: bool
  playbackPlaylistId :: "string option"
  currentTrackIndex :: nat
  currentTrackUrl :: "string option"
  playbackMessage :: message
  isPlaying :: bool
  missingObjectUrl :: bool
  userInteracted :: bool
  mediaSurface :: MediaKind
  progressSnapshot :: Progress
  nameDrafts :: "(string \<times> string) list"
  sessionUrls :: "(string \<times> string) list"
  alarmTimeoutRef :: "nat option"
  element :: "MediaElement option"
  isiOS :: bool
  timers :: "(nat \<times> Timer) list"
  timerSeq :: nat
  blobs :: "string list"

text \<open>The state before the first effect runs: the \<^verbatim>\<open>useState\<close> initial values.\<close>

definition initial_Home :: "bool \<Rightarrow> string list \<Rightarrow> Home" where
  "initial_Home ios stored =
     \<lparr>ready = False, mediaFiles = [], playlists = [], alarm = DEFAULT_ALARM,
      editingPlaylist = None, needsManualPlay = False, playbackPlaylistId = None,
      currentTrackIndex = 0, currentTrackUrl = None, playbackMessage = Waiting,
      isPlaying = False, missingObjectUrl = False, userInteracted = False,
      mediaSurface = Video, progressSnapshot = \<lparr>remaining = 0, percent = 0\<rparr>,
      nameDrafts = [], sessionUrls = [], alarmTimeoutRef = None,
      element = Some \<lparr>currentTime = 0, paused = True\<rparr>, isiOS = ios,
      timers = [], timerSeq = 0, blobs = stored\<rparr>"

text \<open>JavaScript's \<^verbatim>\<open>!x\<close> on a \<^verbatim>\<open>string | null\<close>: null and the empty string.\<close>

definition falsy :: "string option \<Rightarrow> bool" where
  "falsy x = (case x of None \<Rightarrow> True | Some v \<Rightarrow> v = [])"

text \<open>\<^verbatim>\<open>playlists.find((p) => p.id === x)\<close> for an \<open>x\<close> that may be null.\<close>

definition find_playlist :: "string option \<Rightarrow> Playlist list \<Rightarrow> Playlist option" where
  "find_playlist x ps = find (\<lambda>p. Some (id_p p) = x) ps"

text \<open>\<^verbatim>\<open>file?.durationSec ?? 0\<close>.\<close>

definition duration_or_0 :: "MediaFile option \<Rightarrow> real" where
  "duration_or_0 file =
     (case file of
        None \<Rightarrow> 0
      | Some f \<Rightarrow> (case durationSec f of None \<Rightarrow> 0 | Some d \<Rightarrow> d))"

subsection \<open>Startup load\<close>

text \<open>
  What \<^verbatim>\<open>safeRead<AlarmSetting>(ALARM_KEY)\<close> returns when the key parses: any of
  the fields may be absent from the stored object.
\<close>

record StoredAlarm =
  s_time :: "string option"
  s_playlistId :: "string option"
  s_memo :: "string option"
  s_isOn :: "bool option"
  s_nextTrigger :: "int option"

text \<open>\<^verbatim>\<open>{ ...DEFAULT_ALARM, ...(storedAlarm ?? {}) }\<close>.\<close>

definition merge_alarm :: "StoredAlarm option \<Rightarrow> AlarmSetting" where
  "merge_alarm stored =
     (case stored of
        None \<Rightarrow> DEFAULT_ALARM
      | Some a \<Rightarrow>
          \<lparr>time = (case s_time a of None \<Rightarrow> time DEFAULT_ALARM | Some t \<Rightarrow> t),
           playlistId = s_playlistId a,
           memo = (case s_memo a of None \<Rightarrow> memo DEFAULT_ALARM | Some t \<Rightarrow> t),
           isOn = (case s_isOn a of None \<Rightarrow> isOn DEFAULT_ALARM | Some b \<Rightarrow> b),
           nextTrigger = s_nextTrigger a\<rparr>)"

text \<open>
  \<^verbatim>\<open>
  if (mergedAlarm.playlistId) {
    const target = storedPlaylists.find((playlist) => playlist.id === mergedAlarm.playlistId);
    if (!target || target.fileIds.length === 0) {
      mergedAlarm.playlistId = null;
      mergedAlarm.isOn = false;
      mergedAlarm.nextTrigger = undefined;
    }
  }
  \<close>
\<close>

definition normalize_alarm :: "Playlist list \<Rightarrow> AlarmSetting \<Rightarrow> AlarmSetting" where
  "normalize_alarm storedPlaylists mergedAlarm =
     (if falsy (playlistId mergedAlarm) then mergedAlarm
      else (case find_playlist (playlistId mergedAlarm) storedPlaylists of
              None \<Rightarrow> mergedAlarm\<lparr>playlistId := None, isOn := False, nextTrigger := None\<rparr>
            | Some target \<Rightarrow>
                if fileIds target = []
                then mergedAlarm\<lparr>playlistId := None, isOn := False, nextTrigger := None\<rparr>
                else mergedAlarm))"

text \<open>
  The startup effect. Each argument is what \<^verbatim>\<open>safeRead\<close> gave for its key: \<open>None\<close>
  when the key is missing or does not parse.
\<close>

definition load_effect ::
  "MediaFile list option \<Rightarrow> Playlist list option \<Rightarrow> StoredAlarm option \<Rightarrow> Home \<Rightarrow> Home" where
  "load_effect savedMedia savedPlaylists savedAlarm s =
     (let storedMedia = (case savedMedia of None \<Rightarrow> [] | Some ms \<Rightarrow> ms);
          normalizedMedia =
            map (\<lambda>file. file\<lparr>hasBlob := Some (case hasBlob file of None \<Rightarrow> False | Some b \<Rightarrow> b)\<rparr>)
              storedMedia;
          storedPlaylists = (case savedPlaylists of None \<Rightarrow> [] | Some ps \<Rightarrow> ps);
          mergedAlarm = normalize_alarm storedPlaylists (merge_alarm savedAlarm)
      in s\<lparr>mediaFiles := normalizedMedia, playlists := storedPlaylists,
            alarm := mergedAlarm, ready := True\<rparr>)"

subsection \<open>Alarm timer\<close>

text \<open>
  \<^verbatim>\<open>
  const detachAlarmTimeout = useCallback(() => {
    if (alarmTimeoutRef.current) {
      clearTimeout(alarmTimeoutRef.current);
      alarmTimeoutRef.current = null;
    }
  }, []);
  \<close>
  \<^verbatim>\<open>clearTimeout(h)\<close> drops the pending timer with handle \<open>h\<close>, if there is one.
\<close>

definition clearTimeout :: "nat \<Rightarrow> (nat \<times> Timer) list \<Rightarrow> (nat \<times> Timer) list" where
  "clearTimeout h ts = filter (\<lambda>(h', t). h' \<noteq> h) ts"

definition detachAlarmTimeout :: "Home \<Rightarrow> Home" where
  "detachAlarmTimeout s =
     (case alarmTimeoutRef s of
        None \<Rightarrow> s
      | Some h \<Rightarrow>
          if h = 0 then s
          else s\<lparr>timers := clearTimeout h (timers s), alarmTimeoutRef := None\<rparr>)"

text \<open>
  The scheduling effect, run at clock reading \<open>now\<close>. \<^verbatim>\<open>setTimeout\<close> hands out
  the next handle (handles start at 1).
  \<^verbatim>\<open>
  useEffect(() => {
    detachAlarmTimeout();
    const playlistId = alarm.playlistId;
    if (!alarm.isOn || !alarm.nextTrigger || !playlistId) return;
    const target = new Date(alarm.nextTrigger).getTime();
    const delay = Math.max(target - Date.now(), 0);
    alarmTimeoutRef.current = setTimeout(() => {
      startPlayback(playlistId, true);
      const next = calculateNextTrigger(alarm.time);
      setAlarm((prev) => ({ ...prev, nextTrigger: next?.toISOString() }));
    }, delay);
    return () => detachAlarmTimeout();
  }, [alarm, detachAlarmTimeout, startPlayback]);
  \<close>
\<close>

definition alarm_effect :: "int \<Rightarrow> Home \<Rightarrow> Home" where
  "alarm_effect now s0 =
     (let s = detachAlarmTimeout s0
      in (case (playlistId (alarm s), nextTrigger (alarm s)) of
            (Some pid, Some target) \<Rightarrow>
              if \<not> isOn (alarm s) \<or> pid = [] then s
              else (let h = Suc (timerSeq s);
                        t = \<lparr>delay = max (target - now) 0, firePlaylistId = pid,
                             fireTime = time (alarm s)\<rparr>
                    in s\<lparr>timers := timers s @ [(h, t)], alarmTimeoutRef := Some h,
                          timerSeq := h\<rparr>)
          | _ \<Rightarrow> s))"

subsection \<open>Playback cursor\<close>

text \<open>
  \<^verbatim>\<open>
  const startPlayback = useCallback((playlistId: string, fromAlarm = false) => {
    const playlist = playlists.find((p) => p.id === playlistId);
    if (!playlist || playlist.fileIds.length === 0) {
      setPlaybackMessage(...); setPlaybackPlaylistId(null); setIsPlaying(false);
      return;
    }
    const requiresManualStart = fromAlarm && isiOS && !userInteracted;
    const firstFileId = playlist.fileIds[0];
    if (firstFileId) {
      const firstFile = mediaFiles.find((file) => file.id === firstFileId);
      if (firstFile) { setMediaSurface(firstFile.kind); }
    }
    setPlaybackPlaylistId(playlistId); setCurrentTrackIndex(0); setIsPlaying(true);
    setNeedsManualPlay(requiresManualStart);
    setPlaybackMessage(requiresManualStart ? ... : fromAlarm ? ... : ...);
  }, ...);
  \<close>
\<close>

definition reject_start :: "Home \<Rightarrow> Home" where
  "reject_start s =
     s\<lparr>playbackMessage := NoPlayableTracks, playbackPlaylistId := None, isPlaying := False\<rparr>"

definition startPlayback :: "string \<Rightarrow> bool \<Rightarrow> Home \<Rightarrow> Home" where
  "startPlayback pid fromAlarm s =
     (case find (\<lambda>p. id_p p = pid) (playlists s) of
        None \<Rightarrow> reject_start s
      | Some playlist \<Rightarrow>
          (case fileIds playlist of
             [] \<Rightarrow> reject_start s
           | firstFileId # _ \<Rightarrow>
               (let requiresManualStart = (fromAlarm \<and> isiOS s \<and> \<not> userInteracted s);
                    s1 = (if firstFileId = [] then s
                          else (case find (\<lambda>file. id_f file = firstFileId) (mediaFiles s) of
                                  None \<Rightarrow> s
                                | Some firstFile \<Rightarrow> s\<lparr>mediaSurface := kind firstFile\<rparr>))
                in s1\<lparr>playbackPlaylistId := Some pid, currentTrackIndex := 0,
                       isPlaying := True, needsManualPlay := requiresManualStart,
                       playbackMessage :=
                         (if requiresManualStart then TapToStartOnIPhone
                          else if fromAlarm then StartedFromAlarm else Started)\<rparr>)))"

text \<open>
  \<^verbatim>\<open>
  const stopPlayback = useCallback(() => {
    setIsPlaying(false); setPlaybackPlaylistId(null); setCurrentTrackIndex(0);
    setCurrentTrackUrl(null); setNeedsManualPlay(false); setMissingObjectUrl(false);
    if (mediaElementRef.current) {
      mediaElementRef.current.pause();
      mediaElementRef.current.currentTime = 0;
    }
    setProgressSnapshot({ remaining: 0, percent: 0 });
  }, []);
  \<close>
\<close>

definition stopPlayback :: "Home \<Rightarrow> Home" where
  "stopPlayback s =
     s\<lparr>isPlaying := False, playbackPlaylistId := None, currentTrackIndex := 0,
       currentTrackUrl := None, needsManualPlay := False, missingObjectUrl := False,
       element := map_option (\<lambda>e. e\<lparr>paused := True, currentTime := 0\<rparr>) (element s),
       progressSnapshot := \<lparr>remaining = 0, percent = 0\<rparr>\<rparr>"

text \<open>
  \<^verbatim>\<open>
  const advanceTrack = useCallback((reason?: string) => {
    if (!playbackPlaylistId) return;
    const playlist = playlists.find((p) => p.id === playbackPlaylistId);
    if (!playlist) { stopPlayback(); return; }
    if (reason) { setPlaybackMessage(reason); }
    if (currentTrackIndex + 1 < playlist.fileIds.length) {
      setCurrentTrackIndex((index) => index + 1);
    } else {
      setPlaybackMessage(...); stopPlayback();
    }
  }, ...);
  \<close>
\<close>

definition advanceTrack :: "string option \<Rightarrow> Home \<Rightarrow> Home" where
  "advanceTrack reason s =
     (if falsy (playbackPlaylistId s) then s
      else (case find_playlist (playbackPlaylistId s) (playlists s) of
              None \<Rightarrow> stopPlayback s
            | Some playlist \<Rightarrow>
                (let s1 = (if falsy reason then s
                           else s\<lparr>playbackMessage := Reason (the reason)\<rparr>)
                 in if currentTrackIndex s + 1 < length (fileIds playlist)
                    then s1\<lparr>currentTrackIndex := currentTrackIndex s1 + 1\<rparr>
                    else stopPlayback (s1\<lparr>playbackMessage := PlaylistFinished\<rparr>))))"

text \<open>
  \<^verbatim>\<open>
  const currentTrack = useMemo(() => {
    if (!playbackPlaylistId) return null;
    const playlist = playlists.find((p) => p.id === playbackPlaylistId);
    if (!playlist) return null;
    const mediaId = playlist.fileIds[currentTrackIndex];
    if (!mediaId) return null;
    return mediaFiles.find((file) => file.id === mediaId) ?? null;
  }, ...);
  \<close>
  An index past the end of \<^verbatim>\<open>fileIds\<close> reads \<^verbatim>\<open>undefined\<close>.
\<close>

definition currentTrack :: "Home \<Rightarrow> MediaFile option" where
  "currentTrack s =
     (if falsy (playbackPlaylistId s) then None
      else (case find_playlist (playbackPlaylistId s) (playlists s) of
              None \<Rightarrow> None
            | Some playlist \<Rightarrow>
                if currentTrackIndex s < length (fileIds playlist)
                then (let mediaId = fileIds playlist ! currentTrackIndex s
                      in if mediaId = [] then None
                         else find (\<lambda>file. id_f file = mediaId) (mediaFiles s))
                else None))"

subsection \<open>Track resolver\<close>

text \<open>
  \<^verbatim>\<open>URL.createObjectURL(blob)\<close> gives a URL that stands for the blob. Only its
  being there matters to the cursor; the model names it after the blob's key.
\<close>

definition createObjectURL :: "string \<Rightarrow> string" where
  "createObjectURL fileId = ''blob:'' @ fileId"

text \<open>
  \<^verbatim>\<open>
  const loadTrackUrl = useCallback(async (fileId: string) => {
    if (!fileId) return null;
    if (sessionUrls.current.has(fileId)) {
      return sessionUrls.current.get(fileId) ?? null;
    }
    const blob = await readBlob(fileId);
    if (!blob) return null;
    const url = URL.createObjectURL(blob);
    sessionUrls.current.set(fileId, url);
    return url;
  }, []);
  \<close>
\<close>

definition loadTrackUrl :: "string \<Rightarrow> Home \<Rightarrow> string option \<times> Home" where
  "loadTrackUrl fileId s =
     (if fileId = [] then (None, s)
      else (case map_of (sessionUrls s) fileId of
              Some url \<Rightarrow> (Some url, s)
            | None \<Rightarrow>
                if fileId \<in> set (blobs s)
                then (let url = createObjectURL fileId
                      in (Some url, s\<lparr>sessionUrls := sessionUrls s @ [(fileId, url)]\<rparr>))
                else (None, s)))"

text \<open>
  The track setup effect, with its awaited load completed.
  \<^verbatim>\<open>
  const setup = async () => {
    if (!currentTrack) { setCurrentTrackUrl(null); setMissingObjectUrl(false); return; }
    const url = await loadTrackUrl(currentTrack.id);
    if (cancelled) return;
    if (!url) { setMissingObjectUrl(true); advanceTrack(); return; }
    setMissingObjectUrl(false);
    setCurrentTrackUrl(url);
  };
  \<close>
\<close>

definition track_setup :: "Home \<Rightarrow> Home" where
  "track_setup s =
     (case currentTrack s of
        None \<Rightarrow> s\<lparr>currentTrackUrl := None, missingObjectUrl := False\<rparr>
      | Some track \<Rightarrow>
          (case loadTrackUrl (id_f track) s of
             (None, s1) \<Rightarrow> advanceTrack None (s1\<lparr>missingObjectUrl := True\<rparr>)
           | (Some url, s1) \<Rightarrow>
               if url = [] then advanceTrack None (s1\<lparr>missingObjectUrl := True\<rparr>)
               else s1\<lparr>missingObjectUrl := False, currentTrackUrl := Some url\<rparr>))"

subsection \<open>Progress reporter\<close>

text \<open>
  \<^verbatim>\<open>
  function playlistDurationSec(playlist: Playlist, files: MediaFile[]) {
    const lookup = new Map(files.map((file) => [file.id, file]));
    return playlist.fileIds.reduce((acc, id) => {
      const file = lookup.get(id);
      return acc + (file?.durationSec ?? 0);
    }, 0);
  }
  \<close>
  \<^verbatim>\<open>new Map(entries)\<close> sets the entries in order, so a later entry replaces an
  earlier one with the same key.
\<close>

definition playlistDurationSec :: "Playlist \<Rightarrow> MediaFile list \<Rightarrow> real" where
  "playlistDurationSec playlist files =
     (let lookup = foldl (\<lambda>m file. m(id_f file \<mapsto> file)) Map.empty files
      in foldl (\<lambda>acc i. fadd acc (duration_or_0 (lookup i))) 0 (fileIds playlist))"

text \<open>
  The interval callback of the progress effect.
  \<^verbatim>\<open>
  const playlist = playlists.find((p) => p.id === playbackPlaylistId);
  if (!playlist) return;
  const total = playlistDurationSec(playlist, mediaFiles);
  const completed = playlist.fileIds.slice(0, currentTrackIndex).reduce((acc, id) => {
    const file = mediaFiles.find((entry) => entry.id === id);
    return acc + (file?.durationSec ?? 0);
  }, 0);
  const currentTime = mediaElementRef.current?.currentTime ?? 0;
  const played = completed + currentTime;
  const percent = total > 0 ? Math.min(100, Math.round((played / total) * 100)) : 0;
  const remaining = Math.max(total - played, 0);
  setProgressSnapshot({ remaining, percent });
  \<close>
  \<^verbatim>\<open>Math.round\<close> returns the nearest integer, the larger one of two equally near,
  as \<^const>\<open>round\<close> does; \<^verbatim>\<open>Math.min\<close>, \<^verbatim>\<open>Math.max\<close> and the comparison are exact.
\<close>

definition elapsed :: "Home \<Rightarrow> real" where
  "elapsed s = (case element s of None \<Rightarrow> 0 | Some e \<Rightarrow> currentTime e)"

definition progress_tick :: "Home \<Rightarrow> Home" where
  "progress_tick s =
     (case find_playlist (playbackPlaylistId s) (playlists s) of
        None \<Rightarrow> s
      | Some playlist \<Rightarrow>
          (let total = playlistDurationSec playlist (mediaFiles s);
               completed =
                 foldl (\<lambda>acc i. fadd acc (duration_or_0 (find (\<lambda>entry. id_f entry = i) (mediaFiles s))))
                   0 (take (currentTrackIndex s) (fileIds playlist));
               played = fadd completed (elapsed s);
               percent = (if total > 0 then min 100 (round (fmul (fdiv played total) 100)) else 0);
               remaining = max (fsub total played) 0
           in s\<lparr>progressSnapshot := \<lparr>remaining = remaining, percent = percent\<rparr>\<rparr>))"

text \<open>
  The effect installs the interval only while
  \<^verbatim>\<open>isPlaying && currentTrack && playbackPlaylistId\<close>; otherwise no tick runs.
\<close>

definition progress_interval :: "Home \<Rightarrow> Home" where
  "progress_interval s =
     (if \<not> isPlaying s \<or> currentTrack s = None \<or> falsy (playbackPlaylistId s) then s
      else progress_tick s)"

subsection \<open>Library and alarm handlers\<close>

text \<open>
  \<^verbatim>\<open>handleRemoveMedia(id)\<close>; \<open>confirmed\<close> is the answer of \<^verbatim>\<open>window.confirm\<close>.
  \<^verbatim>\<open>
  const alarmPlaylistId = alarm.playlistId;
  setPlaylists((prev) => {
    const updated = prev.map((playlist) => ({
      ...playlist, fileIds: playlist.fileIds.filter((fileId) => fileId !== id) }));
    if (alarmPlaylistId) {
      const target = updated.find((playlist) => playlist.id === alarmPlaylistId);
      if (!target || target.fileIds.length === 0) {
        setAlarm((prevAlarm) => ({ ...prevAlarm,
          playlistId: target ? prevAlarm.playlistId : null,
          isOn: false, nextTrigger: undefined }));
      }
    }
    return updated;
  });
  setMediaFiles((prev) => prev.filter((file) => file.id !== id));
  setEditingPlaylist(...); setNameDrafts(...);
  sessionUrls.current.delete(id); await removeBlob(id);
  \<close>
\<close>

definition handleRemoveMedia :: "bool \<Rightarrow> string \<Rightarrow> Home \<Rightarrow> Home" where
  "handleRemoveMedia confirmed i s =
     (if \<not> confirmed then s
      else
        (let alarmPlaylistId = playlistId (alarm s);
             strip = (\<lambda>playlist. playlist\<lparr>fileIds := filter (\<lambda>fileId. fileId \<noteq> i) (fileIds playlist)\<rparr>);
             updated = map strip (playlists s);
             prevAlarm = alarm s;
             alarm' =
               (if falsy alarmPlaylistId then prevAlarm
                else (case find_playlist alarmPlaylistId updated of
                        None \<Rightarrow> prevAlarm\<lparr>playlistId := None, isOn := False, nextTrigger := None\<rparr>
                      | Some target \<Rightarrow>
                          if fileIds target = []
                          then prevAlarm\<lparr>playlistId := playlistId prevAlarm, isOn := False,
                                 nextTrigger := None\<rparr>
                          else prevAlarm))
         in s\<lparr>playlists := updated, alarm := alarm',
               mediaFiles := filter (\<lambda>file. id_f file \<noteq> i) (mediaFiles s),
               editingPlaylist := map_option strip (editingPlaylist s),
               nameDrafts := filter (\<lambda>(k, v). k \<noteq> i) (nameDrafts s),
               sessionUrls := filter (\<lambda>(k, v). k \<noteq> i) (sessionUrls s),
               blobs := filter (\<lambda>k. k \<noteq> i) (blobs s)\<rparr>))"

text \<open>
  \<^verbatim>\<open>
  const handlePlaylistDelete = (id: string) => {
    if (!window.confirm(...)) { return; }
    setPlaylists((prev) => prev.filter((playlist) => playlist.id !== id));
    if (alarm.playlistId === id) {
      setAlarm((prev) => ({ ...prev, playlistId: null, isOn: false, nextTrigger: undefined }));
    }
    if (editingPlaylist?.id === id) { setEditingPlaylist(null); }
  };
  \<close>
\<close>

definition handlePlaylistDelete :: "bool \<Rightarrow> string \<Rightarrow> Home \<Rightarrow> Home" where
  "handlePlaylistDelete confirmed i s =
     (if \<not> confirmed then s
      else
        (let s1 = s\<lparr>playlists := filter (\<lambda>playlist. id_p playlist \<noteq> i) (playlists s)\<rparr>;
             s2 = (if playlistId (alarm s) = Some i
                   then s1\<lparr>alarm := (alarm s1)\<lparr>playlistId := None, isOn := False,
                                                 nextTrigger := None\<rparr>\<rparr>
                   else s1)
         in (case editingPlaylist s of
               None \<Rightarrow> s2
             | Some e \<Rightarrow> if id_p e = i then s2\<lparr>editingPlaylist := None\<rparr> else s2)))"

text \<open>
  \<^verbatim>\<open>
  const handleAlarmToggle = () => {
    if (!alarm.playlistId) { setPlaybackMessage(...); return; }
    const playlist = playlists.find((entry) => entry.id === alarm.playlistId);
    if (!playlist || playlist.fileIds.length === 0) { setPlaybackMessage(...); return; }
    if (!alarm.isOn) {
      const next = calculateNextTrigger(alarm.time);
      setAlarm((prev) => ({ ...prev, isOn: true, nextTrigger: next?.toISOString() }));
    } else {
      detachAlarmTimeout();
      setAlarm((prev) => ({ ...prev, isOn: false, nextTrigger: undefined }));
    }
  };
  \<close>
\<close>

datatype error = RangeError

text \<open>
  \<^verbatim>\<open>toISOString\<close> throws a \<^verbatim>\<open>RangeError\<close> on an invalid date; the state update is
  lost with it.
\<close>

definition handleAlarmToggle :: "Zone \<Rightarrow> int \<Rightarrow> Home \<Rightarrow> error + Home" where
  "handleAlarmToggle z now s =
     (if falsy (playlistId (alarm s)) then Inr (s\<lparr>playbackMessage := SelectPlaylist\<rparr>)
      else (case find_playlist (playlistId (alarm s)) (playlists s) of
              None \<Rightarrow> Inr (s\<lparr>playbackMessage := SelectNonEmptyPlaylist\<rparr>)
            | Some playlist \<Rightarrow>
                if fileIds playlist = [] then Inr (s\<lparr>playbackMessage := SelectNonEmptyPlaylist\<rparr>)
                else if \<not> isOn (alarm s)
                then (case calculateNextTrigger z now (time (alarm s)) of
                        None \<Rightarrow> Inr (s\<lparr>alarm := (alarm s)\<lparr>isOn := True, nextTrigger := None\<rparr>\<rparr>)
                      | Some None \<Rightarrow> Inl RangeError
                      | Some (Some next) \<Rightarrow>
                          Inr (s\<lparr>alarm := (alarm s)\<lparr>isOn := True, nextTrigger := Some next\<rparr>\<rparr>))
                else (let s1 = detachAlarmTimeout s
                      in Inr (s1\<lparr>alarm := (alarm s1)\<lparr>isOn := False, nextTrigger := None\<rparr>\<rparr>))))"

subsection \<open>The earlier revision: scheduling effect and beginPlayback\<close>

text \<open>
  The state cells of the earlier \<^verbatim>\<open>Home\<close> that the two functions read or write,
  with the pending timers of the browser. \<^verbatim>\<open>playbackState\<close> is
  \<^verbatim>\<open>{ playlistId, index } | null\<close>.
\<close>

record Home1 =
  hydrated1 :: bool
  playlists1 :: "Playlist list"
  alarm1 :: AlarmSetting
  isAlarmRinging1 :: bool
  playbackState1 :: "(string \<times> nat) option"
  statusMessage1 :: "message option"
  needsManualPlay1 :: bool
  timeoutRef1 :: "nat option"
  timers1 :: "(nat \<times> Timer) list"
  timerSeq1 :: nat

text \<open>
  \<^verbatim>\<open>
  const clearAlarmTimeout = useCallback(() => {
    if (timeoutRef.current) { clearTimeout(timeoutRef.current); timeoutRef.current = null; }
  }, []);
  \<close>
\<close>

definition clearAlarmTimeout1 :: "Home1 \<Rightarrow> Home1" where
  "clearAlarmTimeout1 s =
     (case timeoutRef1 s of
        None \<Rightarrow> s
      | Some h \<Rightarrow>
          if h = 0 then s
          else s\<lparr>timers1 := clearTimeout h (timers1 s), timeoutRef1 := None\<rparr>)"

text \<open>
  \<^verbatim>\<open>
  const beginPlayback = useCallback((playlistId: string) => {
    const playlist = playlists.find((item) => item.id === playlistId);
    if (!playlist || playlist.fileIds.length === 0) {
      setStatusMessage(...);
      return;
    }
    setStatusMessage(null); setIsAlarmRinging(true);
    setPlaybackState({ playlistId, index: 0 }); setNeedsManualPlay(false);
  }, [playlists]);
  \<close>
\<close>

definition beginPlayback :: "string \<Rightarrow> Home1 \<Rightarrow> Home1" where
  "beginPlayback pid s =
     (case find (\<lambda>item. id_p item = pid) (playlists1 s) of
        None \<Rightarrow> s\<lparr>statusMessage1 := Some NoPlayableFiles\<rparr>
      | Some playlist \<Rightarrow>
          if fileIds playlist = [] then s\<lparr>statusMessage1 := Some NoPlayableFiles\<rparr>
          else s\<lparr>statusMessage1 := None, isAlarmRinging1 := True,
                 playbackState1 := Some (pid, 0), needsManualPlay1 := False\<rparr>)"

text \<open>
  The scheduling effect of the earlier revision, run at clock reading \<open>now\<close>.
  \<^verbatim>\<open>
  if (!hydrated) return;
  clearAlarmTimeout();
  if (!alarm.isOn || !alarm.time || !alarm.playlistId) {
    if (alarm.nextTrigger) { setAlarm((prev) => ({ ...prev, nextTrigger: null })); }
    return;
  }
  const now = Date.now();
  const existing = alarm.nextTrigger;
  const nextTarget = existing && existing > now ? existing : computeNextTrigger(alarm.time);
  if (nextTarget !== existing) {
    setAlarm((prev) => ({ ...prev, nextTrigger: nextTarget }));
    return;
  }
  const delay = Math.max(nextTarget - now, 0);
  timeoutRef.current = setTimeout(() => { ... }, delay);
  \<close>
  The callback of this revision closes over the playlist id only and reads the time
  when it fires; \<open>fireTime\<close> records the time at scheduling.
  A number is falsy when it is 0 or \<^verbatim>\<open>NaN\<close>. \<^verbatim>\<open>NaN\<close> and \<^verbatim>\<open>null\<close> are both \<open>None\<close>
  (both are falsy, and \<^verbatim>\<open>JSON.stringify\<close> writes \<^verbatim>\<open>NaN\<close> as \<^verbatim>\<open>null\<close>); a \<^verbatim>\<open>NaN\<close>
  target differs from every \<^verbatim>\<open>existing\<close> under \<^verbatim>\<open>!==\<close>, so it is stored and nothing
  is scheduled.
\<close>

definition alarm_effect1 :: "Zone \<Rightarrow> int \<Rightarrow> Home1 \<Rightarrow> Home1" where
  "alarm_effect1 z now s0 =
     (if \<not> hydrated1 s0 then s0
      else
        (let s = clearAlarmTimeout1 s0;
             a = alarm1 s
         in if \<not> isOn a \<or> time a = [] \<or> falsy (playlistId a)
            then (case nextTrigger a of
                    None \<Rightarrow> s
                  | Some e \<Rightarrow> if e = 0 then s else s\<lparr>alarm1 := a\<lparr>nextTrigger := None\<rparr>\<rparr>)
            else
              (let existing = nextTrigger a;
                   nextTarget =
                     (case existing of
                        None \<Rightarrow> computeNextTrigger z now (time a)
                      | Some e \<Rightarrow>
                          if e \<noteq> 0 \<and> e > now then Some e
                          else computeNextTrigger z now (time a))
               in (case nextTarget of
                     None \<Rightarrow> s\<lparr>alarm1 := a\<lparr>nextTrigger := None\<rparr>\<rparr>
                   | Some target \<Rightarrow>
                       if nextTarget \<noteq> existing
                       then s\<lparr>alarm1 := a\<lparr>nextTrigger := nextTarget\<rparr>\<rparr>
                       else (let h = Suc (timerSeq1 s);
                                 t = \<lparr>delay = max (target - now) 0,
                                      firePlaylistId = the (playlistId a), fireTime = time a\<rparr>
                             in s\<lparr>timers1 := timers1 s @ [(h, t)], timeoutRef1 := Some h,
                                   timerSeq1 := h\<rparr>)))))"

subsection \<open>Re-running the track setup effect\<close>

text \<open>
  React runs the setup effect again when one of its dependencies changed:
  \<^verbatim>\<open>currentTrack\<close>, or \<^verbatim>\<open>advanceTrack\<close>, which is rebuilt when
  \<^verbatim>\<open>playbackPlaylistId\<close>, \<^verbatim>\<open>playlists\<close> or \<^verbatim>\<open>currentTrackIndex\<close> changed.
\<close>

definition setup_deps :: "Home \<Rightarrow> MediaFile option \<times> string option \<times> Playlist list \<times> nat" where
  "setup_deps s = (currentTrack s, playbackPlaylistId s, playlists s, currentTrackIndex s)"

text \<open>What is left of the playlist in front of the cursor; 0 when nothing plays.\<close>

definition cursor_measure :: "Home \<Rightarrow> nat" where
  "cursor_measure s =
     (if falsy (playbackPlaylistId s) then 0
      else (case find_playlist (playbackPlaylistId s) (playlists s) of
              None \<Rightarrow> 0
            | Some p \<Rightarrow> Suc (length (fileIds p) - currentTrackIndex s)))"

lemma currentTrack_SomeD:
  "currentTrack s = Some f \<Longrightarrow>
   \<not> falsy (playbackPlaylistId s) \<and>
   (\<exists>p. find_playlist (playbackPlaylistId s) (playlists s) = Some p \<and>
        currentTrackIndex s < length (fileIds p))"
  by (auto simp: currentTrack_def split: if_splits option.splits)

lemma loadTrackUrl_frame:
  "loadTrackUrl i s = (r, s1) \<Longrightarrow>
   playbackPlaylistId s1 = playbackPlaylistId s \<and> playlists s1 = playlists s \<and>
   currentTrackIndex s1 = currentTrackIndex s \<and> mediaFiles s1 = mediaFiles s"
  by (auto simp: loadTrackUrl_def Let_def split: if_splits option.splits)

lemma setup_deps_cong:
  "playbackPlaylistId s1 = playbackPlaylistId s \<Longrightarrow> playlists s1 = playlists s \<Longrightarrow>
   currentTrackIndex s1 = currentTrackIndex s \<Longrightarrow> mediaFiles s1 = mediaFiles s \<Longrightarrow>
   setup_deps s1 = setup_deps s"
  by (simp add: setup_deps_def currentTrack_def Let_def split: option.splits)

lemma advance_measure:
  assumes "\<not> falsy (playbackPlaylistId s)"
    and "find_playlist (playbackPlaylistId s) (playlists s) = Some p"
    and "currentTrackIndex s < length (fileIds p)"
  shows "cursor_measure (advanceTrack None s) < cursor_measure s"
  using assms
  by (auto simp: advanceTrack_def cursor_measure_def stopPlayback_def falsy_def Let_def)

lemma track_setup_measure:
  "setup_deps (track_setup s) \<noteq> setup_deps s \<Longrightarrow>
   cursor_measure (track_setup s) < cursor_measure s"
proof (cases "currentTrack s")
  case None
  assume ch: "setup_deps (track_setup s) \<noteq> setup_deps s"
  have ts: "track_setup s = s\<lparr>currentTrackUrl := None, missingObjectUrl := False\<rparr>"
    using None by (simp add: track_setup_def)
  have "setup_deps (track_setup s) = setup_deps s"
    unfolding ts by (rule setup_deps_cong) simp_all
  with ch show ?thesis by simp
next
  case (Some f)
  assume ch: "setup_deps (track_setup s) \<noteq> setup_deps s"
  obtain r s1 where l: "loadTrackUrl (id_f f) s = (r, s1)"
    by (cases "loadTrackUrl (id_f f) s")
  note fr = loadTrackUrl_frame [OF l]
  from currentTrack_SomeD [OF Some] obtain p where
    p: "\<not> falsy (playbackPlaylistId s)"
       "find_playlist (playbackPlaylistId s) (playlists s) = Some p"
       "currentTrackIndex s < length (fileIds p)" by blast
  define s2 where "s2 = s1\<lparr>missingObjectUrl := True\<rparr>"
  have fr2: "playbackPlaylistId s2 = playbackPlaylistId s" "playlists s2 = playlists s"
    "currentTrackIndex s2 = currentTrackIndex s"
    using fr by (simp_all add: s2_def)
  have m2: "cursor_measure s2 = cursor_measure s"
    unfolding cursor_measure_def fr2 by (rule refl)
  have "cursor_measure (advanceTrack None s2) < cursor_measure s2"
    by (rule advance_measure [of s2 p]) (simp_all add: fr2 p)
  then have adv: "cursor_measure (advanceTrack None s2) < cursor_measure s"
    by (simp only: m2)
  show ?thesis
  proof (cases "r = None \<or> r = Some []")
    case True
    then have "track_setup s = advanceTrack None s2"
      using Some l by (auto simp: track_setup_def s2_def)
    then show ?thesis using adv by simp
  next
    case False
    then obtain url where u: "r = Some url" "url \<noteq> []" by auto
    have ts: "track_setup s = s1\<lparr>missingObjectUrl := False, currentTrackUrl := Some url\<rparr>"
      using Some l u by (simp add: track_setup_def)
    have "setup_deps (track_setup s) = setup_deps s"
      unfolding ts by (rule setup_deps_cong) (simp_all add: fr)
    with ch show ?thesis by simp
  qed
qed

text \<open>
  The effect, run until its dependencies stop changing. Every run that changes them
  moves the cursor forward or stops playback, so the runs end.
\<close>

function settle :: "Home \<Rightarrow> Home" where
  "settle s =
     (let s' = track_setup s
      in if setup_deps s' = setup_deps s then s' else settle s')"
  by pat_completeness auto
termination
  by (relation "measure cursor_measure") (simp_all add: track_setup_measure)

declare settle.simps [simp del]

subsection \<open>Predicates of the specification\<close>

text \<open>
  The armed-alarm invariant: an alarm that is on names a playlist (a non-empty id,
  as the page's own \<^verbatim>\<open>!alarm.playlistId\<close> tests read it) that exists and has at
  least one track.
\<close>

definition armed_ok :: "AlarmSetting \<Rightarrow> Playlist list \<Rightarrow> bool" where
  "armed_ok a ps =
     (if isOn a
      then \<not> falsy (playlistId a) \<and>
           (case find_playlist (playlistId a) ps of
              None \<Rightarrow> False
            | Some p \<Rightarrow> fileIds p \<noteq> [])
      else True)"

text \<open>The cursor is idle: no playlist is being played.\<close>

definition Idle :: "Home \<Rightarrow> bool" where
  "Idle s = (playbackPlaylistId s = None \<and> \<not> isPlaying s)"

text \<open>The stored duration of the track with id \<open>i\<close>, 0 when it is unknown.\<close>

definition duration_of :: "MediaFile list \<Rightarrow> string \<Rightarrow> real" where
  "duration_of files i = duration_or_0 (find (\<lambda>f. id_f f = i) files)"

text \<open>The sum of a list of numbers as \<^verbatim>\<open>reduce\<close> adds them: from 0, left to right.\<close>

definition sum_doubles :: "real list \<Rightarrow> real" where
  "sum_doubles xs = foldl fadd 0 xs"

text \<open>
  Every stored duration is a whole number of seconds, as the prober's
  \<^verbatim>\<open>Math.round\<close> writes it.
\<close>

definition whole_seconds :: "MediaFile list \<Rightarrow> bool" where
  "whole_seconds files =
     list_all (\<lambda>f. case durationSec f of None \<Rightarrow> True | Some d \<Rightarrow> d = of_int \<lfloor>d\<rfloor>) files"

text \<open>A percentage brought into the range 0..100.\<close>

definition clamp_percent :: "int \<Rightarrow> int" where
  "clamp_percent p = max 0 (min 100 p)"

text \<open>No stored duration is negative (the prober rounds a positive length).\<close>

definition durations_ok :: "MediaFile list \<Rightarrow> bool" where
  "durations_ok files =
     list_all (\<lambda>f. case durationSec f of None \<Rightarrow> True | Some d \<Rightarrow> 0 \<le> d) files"

text \<open>
  Every pending timer is the one the ref holds: the discipline under which
  cancelling the ref's timer cancels all of them.
\<close>

definition timers_tracked :: "Home \<Rightarrow> bool" where
  "timers_tracked s = list_all (\<lambda>(h, t). alarmTimeoutRef s = Some h \<and> h \<noteq> 0) (timers s)"

definition timers_tracked1 :: "Home1 \<Rightarrow> bool" where
  "timers_tracked1 s = list_all (\<lambda>(h, t). timeoutRef1 s = Some h \<and> h \<noteq> 0) (timers1 s)"

text \<open>
  The states the page can be in. The modelled handlers and effects are steps;
  every other handler, and the browser moving the playback position, is a step
  that leaves the \<^verbatim>\<open>progressSnapshot\<close> cell alone (only the tick and
  \<^verbatim>\<open>stopPlayback\<close> call \<^verbatim>\<open>setProgressSnapshot\<close>). A tick reads stored durations
  and the element's position, neither of which is negative.
\<close>

inductive reachable :: "Home \<Rightarrow> bool" where
  r_init: "reachable (initial_Home ios stored)"
| r_load: "reachable s \<Longrightarrow> reachable (load_effect m p a s)"
| r_start: "reachable s \<Longrightarrow> reachable (startPlayback pid fromAlarm s)"
| r_stop: "reachable s \<Longrightarrow> reachable (stopPlayback s)"
| r_advance: "reachable s \<Longrightarrow> reachable (advanceTrack reason s)"
| r_setup: "reachable s \<Longrightarrow> reachable (track_setup s)"
| r_tick: "reachable s \<Longrightarrow> durations_ok (mediaFiles s) \<Longrightarrow> 0 \<le> elapsed s \<Longrightarrow>
           reachable (progress_interval s)"
| r_remove: "reachable s \<Longrightarrow> reachable (handleRemoveMedia c i s)"
| r_delete: "reachable s \<Longrightarrow> reachable (handlePlaylistDelete c i s)"
| r_toggle: "reachable s \<Longrightarrow> handleAlarmToggle z now s = Inr s' \<Longrightarrow> reachable s'"
| r_alarm: "reachable s \<Longrightarrow> reachable (alarm_effect now s)"
| r_other: "reachable s \<Longrightarrow> progressSnapshot s' = progressSnapshot s \<Longrightarrow> reachable s'"




text \<open>No playlist has the id \<open>pid\<close>, or the first one that has it holds no track.\<close>

definition missing_or_empty :: "string \<Rightarrow> Playlist list \<Rightarrow> bool" where
  "missing_or_empty pid ps =
     (case find (\<lambda>p. id_p p = pid) ps of None \<Rightarrow> True | Some p \<Rightarrow> fileIds p = [])"

text \<open>The ranges of a progress snapshot.\<close>

definition snapshot_ok :: "Progress \<Rightarrow> bool" where
  "snapshot_ok p = (0 \<le> remaining p \<and> 0 \<le> percent p \<and> percent p \<le> 100)"

text \<open>Every track id of the playlist is non-empty and has a media entry.\<close>

definition entries_ok :: "MediaFile list \<Rightarrow> Playlist \<Rightarrow> bool" where
  "entries_ok files p =
     list_all (\<lambda>i. i \<noteq> [] \<and> find (\<lambda>f. id_f f = i) files \<noteq> None) (fileIds p)"

text \<open>What the cursor has reached once the setup effect has settled.\<close>

definition finished :: "Home \<Rightarrow> bool" where
  "finished s = (playbackPlaylistId s = None \<and> \<not> isPlaying s
                 \<and> playbackMessage s = PlaylistFinished)"

definition resolved_at :: "Home \<Rightarrow> Playlist \<Rightarrow> nat \<Rightarrow> bool" where
  "resolved_at s p i =
     (i \<le> currentTrackIndex s \<and> currentTrackIndex s < length (fileIds p)
      \<and> (case currentTrackUrl s of
            None \<Rightarrow> False
          | Some url \<Rightarrow> url \<noteq> []
              \<and> map_of (sessionUrls s) (fileIds p ! currentTrackIndex s) = Some url))"

subsection \<open>Example data\<close>

text \<open>
  A library of two tracks (the first with no known duration), a playlist, an
  armed alarm, and a stored alarm record that names a playlist no longer there.
\<close>

definition track_a :: MediaFile where
  "track_a = \<lparr>id_f = ''a'', name_f = ''a.mp3'', mimeType = ''audio/mpeg'', kind = Audio,
               createdAt = [], durationSec = None, hasBlob = Some True\<rparr>"

definition track_b :: MediaFile where
  "track_b = \<lparr>id_f = ''b'', name_f = ''b.mp4'', mimeType = ''video/mp4'', kind = Video,
               createdAt = [], durationSec = Some 20, hasBlob = Some True\<rparr>"

definition list_p1 :: Playlist where
  "list_p1 = \<lparr>id_p = ''p1'', name_p = ''Morning'', fileIds = [''a'']\<rparr>"

definition home_p1 :: Home where
  "home_p1 = (initial_Home False [''a''])
     \<lparr>ready := True, mediaFiles := [track_a], playlists := [list_p1],
      alarm := \<lparr>time = ''07:00'', playlistId = Some ''p1'', memo = [], isOn = True,
                nextTrigger = Some 1728079200000\<rparr>\<rparr>"

definition saved_alarm_dangling :: StoredAlarm where
  "saved_alarm_dangling =
     \<lparr>s_time = Some ''06:30'', s_playlistId = Some ''gone'', s_memo = Some [],
      s_isOn = Some True, s_nextTrigger = Some 1728079200000\<rparr>"

definition home1_idle :: Home1 where
  "home1_idle = \<lparr>hydrated1 = True, playlists1 = [list_p1],
      alarm1 = \<lparr>time = ''07:00'', playlistId = Some ''p1'', memo = [], isOn = True,
                nextTrigger = None\<rparr>,
      isAlarmRinging1 = False, playbackState1 = None, statusMessage1 = None,
      needsManualPlay1 = False, timeoutRef1 = None, timers1 = [], timerSeq1 = 0\<rparr>"

text \<open>The alarm switched off and its time field cleared, with the playlist still chosen.\<close>

definition home_unset_time :: Home where
  "home_unset_time = home_p1\<lparr>alarm := \<lparr>time = [], playlistId = Some ''p1'', memo = [],
                                        isOn = False, nextTrigger = None\<rparr>\<rparr>"

text \<open>Three tracks of 10, 20 and 30 seconds and a playlist of them.\<close>

definition track10 :: MediaFile where
  "track10 = \<lparr>id_f = ''t10'', name_f = ''one'', mimeType = ''audio/mpeg'', kind = Audio,
               createdAt = [], durationSec = Some 10, hasBlob = Some True\<rparr>"

definition track20 :: MediaFile where
  "track20 = \<lparr>id_f = ''t20'', name_f = ''two'', mimeType = ''audio/mpeg'', kind = Audio,
               createdAt = [], durationSec = Some 20, hasBlob = Some True\<rparr>"

definition track30 :: MediaFile where
  "track30 = \<lparr>id_f = ''t30'', name_f = ''three'', mimeType = ''audio/mpeg'', kind = Audio,
               createdAt = [], durationSec = Some 30, hasBlob = Some True\<rparr>"

definition list_three :: Playlist where
  "list_three = \<lparr>id_p = ''p3'', name_p = ''Three'', fileIds = [''t10'', ''t20'', ''t30'']\<rparr>"

text \<open>Playing the second of three tracks (10, 20 and 30 seconds), 5 seconds in.\<close>

definition home_three :: Home where
  "home_three = (initial_Home False [''t10'', ''t20'', ''t30''])
     \<lparr>ready := True, mediaFiles := [track10, track20, track30], playlists := [list_three],
      playbackPlaylistId := Some ''p3'', currentTrackIndex := 1, isPlaying := True,
      currentTrackUrl := Some (createObjectURL ''t20''),
      element := Some \<lparr>currentTime = 5, paused = False\<rparr>\<rparr>"

definition list_ab :: Playlist where
  "list_ab = \<lparr>id_p = ''ab'', name_p = ''AB'', fileIds = [''a'', ''b'']\<rparr>"

text \<open>
  Playing \<open>list_ab\<close>: its first track has no stored duration and has played for 15
  seconds; the second is stored as 20 seconds long.
\<close>

definition home_ab_first :: Home where
  "home_ab_first = (initial_Home False [''a'', ''b''])
     \<lparr>ready := True, mediaFiles := [track_a, track_b], playlists := [list_ab],
      playbackPlaylistId := Some ''ab'', currentTrackIndex := 0, isPlaying := True,
      currentTrackUrl := Some (createObjectURL ''a''),
      sessionUrls := [(''a'', createObjectURL ''a'')],
      element := Some \<lparr>currentTime = 15, paused = False\<rparr>\<rparr>"

text \<open>
  The first track ends after the tick: \<^verbatim>\<open>onEnded\<close> advances the cursor, the setup
  effect resolves the second track, and the browser has played one second of it.
\<close>

definition home_ab_second :: Home where
  "home_ab_second =
     (track_setup (advanceTrack None (progress_interval home_ab_first)))
       \<lparr>element := Some \<lparr>currentTime = 1, paused = False\<rparr>\<rparr>"

text \<open>The same playback a little later: 8 and 20 seconds into the second track.\<close>

definition home_three_8 :: Home where
  "home_three_8 = home_three\<lparr>element := Some \<lparr>currentTime = 8, paused = False\<rparr>\<rparr>"

definition home_three_20 :: Home where
  "home_three_20 = home_three\<lparr>element := Some \<lparr>currentTime = 20, paused = False\<rparr>\<rparr>"

text \<open>The third track has just begun.\<close>

definition home_three_last :: Home where
  "home_three_last =
     home_three\<lparr>currentTrackIndex := 2, currentTrackUrl := Some (createObjectURL ''t30''),
                 element := Some \<lparr>currentTime = 0, paused = False\<rparr>\<rparr>"

text \<open>
  Two zones: Tokyo, nine hours east of UTC with no transition, and New York with
  its two transitions of 2024 (10 March 07:00 UTC and 3 November 06:00 UTC).
\<close>

definition tokyo :: Zone where
  "tokyo = \<lparr>base = 32400000, transitions = []\<rparr>"

definition new_york :: Zone where
  "new_york = \<lparr>base = - 18000000,
                transitions = [(1710054000000, - 14400000), (1730613600000, - 18000000)]\<rparr>"

text \<open>One track of 40 seconds, 23 seconds into it.\<close>

definition track40 :: MediaFile where
  "track40 = \<lparr>id_f = ''t40'', name_f = ''forty'', mimeType = ''audio/mpeg'', kind = Audio,
               createdAt = [], durationSec = Some 40, hasBlob = Some True\<rparr>"

definition list_40 :: Playlist where
  "list_40 = \<lparr>id_p = ''p40'', name_p = ''Forty'', fileIds = [''t40'']\<rparr>"

definition home_40_23 :: Home where
  "home_40_23 = (initial_Home False [''t40''])
     \<lparr>ready := True, mediaFiles := [track40], playlists := [list_40],
      playbackPlaylistId := Some ''p40'', currentTrackIndex := 0,
      currentTrackUrl := Some (createObjectURL ''t40''), isPlaying := True,
      element := Some \<lparr>currentTime = 23, paused = False\<rparr>\<rparr>"

text \<open>
  The armed alarm of \<open>home_p1\<close> with a trigger that has passed (today 07:00, read
  at 07:05 in Tokyo), and with no trigger stored.
\<close>

definition home_stale :: Home where
  "home_stale = home_p1\<lparr>alarm := (alarm home_p1)\<lparr>nextTrigger := Some 1727992800000\<rparr>\<rparr>"

definition home_no_trigger :: Home where
  "home_no_trigger = home_p1\<lparr>alarm := (alarm home_p1)\<lparr>nextTrigger := None\<rparr>\<rparr>"

text \<open>
  A playlist whose first id has no media entry (the media list lost it) and whose
  second track is in the library with its blob stored.
\<close>

definition list_xa :: Playlist where
  "list_xa = \<lparr>id_p = ''xa'', name_p = ''XA'', fileIds = [''x'', ''a'']\<rparr>"

text \<open>The page as the startup effect leaves it when storage holds just these.\<close>

definition home_dangling :: Home where
  "home_dangling =
     load_effect (Some [track_a]) (Some [list_xa]) None (initial_Home False [''a''])"

section \<open>Properties\<close>

subsection \<open>Rounding to a double\<close>

lemma pow2_less_iff: "(2::real) powi a < 2 powi b \<longleftrightarrow> a < b"
proof
  assume l: "(2::real) powi a < 2 powi b"
  show "a < b"
  proof (rule ccontr)
    assume "\<not> a < b"
    then have "b \<le> a" by simp
    then have "(2::real) powi b \<le> 2 powi a" by (intro power_int_increasing) simp_all
    with l show False by simp
  qed
next
  assume "a < b"
  then show "(2::real) powi a < 2 powi b" by (intro power_int_strict_increasing) simp_all
qed

lemma pow2_le_iff: "(2::real) powi a \<le> 2 powi b \<longleftrightarrow> a \<le> b"
  using pow2_less_iff [of b a] by (simp add: not_less [symmetric])

lemma pow2_pos: "0 < (2::real) powi a"
  by (rule zero_less_power_int) simp

lemma pow2_add: "(2::real) powi (a + b) = 2 powi a * 2 powi b"
  by (rule power_int_add) simp

lemma exponent_bounds:
  assumes "0 < x"
  shows "2 powi exponent x \<le> x" and "x < 2 powi (exponent x + 1)"
proof -
  have "2 powi exponent x \<le> x \<and> x < 2 powi (exponent x + 1)"
  proof (cases "1 \<le> x")
    case True
    define n where "n = \<lfloor>x\<rfloor>"
    have n: "1 \<le> n" using True by (simp add: n_def)
    then have n0: "0 < n" by simp
    have b1: "1 \<le> bitlen n" using n0 by (simp add: bitlen_alt_def)
    note bb = bitlen_bounds [OF n0]
    have e: "exponent x = bitlen n - 1" using True by (simp add: exponent_def n_def)
    have "(2::real) powi (bitlen n - 1) = 2 ^ nat (bitlen n - 1)"
      using b1 by (simp add: power_int_def)
    also have "\<dots> = real_of_int (2 ^ nat (bitlen n - 1))" by simp
    also have "\<dots> \<le> real_of_int n" using bb by (simp only: of_int_le_iff)
    also have "\<dots> \<le> x" by (simp add: n_def)
    finally have lo: "2 powi (bitlen n - 1) \<le> x" .
    have "n + 1 \<le> 2 ^ nat (bitlen n)" using bb by simp
    then have "real_of_int (n + 1) \<le> real_of_int (2 ^ nat (bitlen n))" by (simp only: of_int_le_iff)
    moreover have "x < real_of_int (n + 1)" by (simp add: n_def)
    ultimately have "x < real_of_int (2 ^ nat (bitlen n))" by linarith
    also have "\<dots> = 2 powi (bitlen n)" using b1 by (simp add: power_int_def)
    finally have hi: "x < 2 powi (bitlen n - 1 + 1)" by simp
    show ?thesis unfolding e using lo hi by simp
  next
    case False
    then have x1: "x < 1" by simp
    define c where "c = \<lceil>1 / x\<rceil>"
    have "1 < 1 / x" using assms x1 by simp
    then have c2: "2 \<le> c" unfolding c_def by linarith
    then have c0: "0 < c - 1" by simp
    define j where "j = bitlen (c - 1)"
    have j1: "1 \<le> j" using c0 by (simp add: j_def bitlen_alt_def)
    note bb = bitlen_bounds [OF c0, folded j_def]
    have e: "exponent x = - j" using False by (simp add: exponent_def c_def j_def)
    have cx: "1 / x \<le> of_int c" "of_int (c - 1) < 1 / x"
      unfolding c_def by linarith+
    have "c \<le> 2 ^ nat j" using bb by simp
    then have "real_of_int c \<le> real_of_int (2 ^ nat j)" by (simp only: of_int_le_iff)
    then have "real_of_int c \<le> 2 ^ nat j" by simp
    with cx(1) have "1 / x \<le> 2 ^ nat j" by linarith
    then have "1 / 2 ^ nat j \<le> x" using assms
      by (simp add: field_simps)
    moreover have "(2::real) powi (- j) = 1 / 2 ^ nat j"
      using j1 by (simp add: power_int_def field_simps)
    ultimately have lo: "2 powi (- j) \<le> x" by simp
    have "real_of_int (2 ^ nat (j - 1)) \<le> real_of_int (c - 1)"
      using bb by (simp only: of_int_le_iff)
    then have "2 ^ nat (j - 1) \<le> real_of_int (c - 1)" by simp
    with cx(2) have "2 ^ nat (j - 1) < 1 / x" by linarith
    then have "x < 1 / 2 ^ nat (j - 1)" using assms
      by (simp add: field_simps)
    moreover have "(2::real) powi (- j + 1) = 1 / 2 ^ nat (j - 1)"
    proof (cases "j = 1")
      case True
      then show ?thesis by simp
    next
      case False
      with j1 have "- j + 1 < 0" by simp
      then have "(2::real) powi (- j + 1) = inverse 2 ^ nat (j - 1)"
        by (simp add: power_int_def)
      then show ?thesis by (simp add: power_inverse field_simps)
    qed
    ultimately have hi: "x < 2 powi (- j + 1)" by simp
    show ?thesis unfolding e using lo hi by simp
  qed
  then show "2 powi exponent x \<le> x" and "x < 2 powi (exponent x + 1)" by simp_all
qed

lemma exponent_unique:
  assumes "0 < x" and "2 powi e \<le> x" and "x < 2 powi (e + 1)"
  shows "exponent x = e"
proof -
  note b = exponent_bounds [OF assms(1)]
  have "(2::real) powi e < 2 powi (exponent x + 1)" using assms(2) b(2) by simp
  then have 1: "e < exponent x + 1" by (simp add: pow2_less_iff)
  have "(2::real) powi exponent x < 2 powi (e + 1)" using assms(3) b(1) by simp
  then have 2: "exponent x < e + 1" by (simp add: pow2_less_iff)
  from 1 2 show ?thesis by simp
qed

lemma exponent_mono:
  assumes "0 < x" and "x \<le> y"
  shows "exponent x \<le> exponent y"
proof -
  have y: "0 < y" using assms by simp
  have "(2::real) powi exponent x \<le> x" by (rule exponent_bounds [OF assms(1)])
  also have "\<dots> \<le> y" by fact
  also have "\<dots> < 2 powi (exponent y + 1)" by (rule exponent_bounds [OF y])
  finally have "exponent x < exponent y + 1" by (simp add: pow2_less_iff)
  then show ?thesis by simp
qed

lemma round_even_cases:
  "(real_of_int (round_even y) = of_int \<lfloor>y\<rfloor> \<and> y - of_int \<lfloor>y\<rfloor> \<le> 1 / 2)
   \<or> (real_of_int (round_even y) = of_int \<lfloor>y\<rfloor> + 1 \<and> 1 / 2 \<le> y - of_int \<lfloor>y\<rfloor>)"
  by (simp add: round_even_def Let_def)

lemma round_even_error: "\<bar>real_of_int (round_even y) - y\<bar> \<le> 1 / 2"
  using round_even_cases [of y] of_int_floor_le [of y] floor_correct [of y] by linarith

lemma round_even_of_int [simp]: "round_even (of_int k) = k"
  by (simp add: round_even_def)

lemma round_even_mono:
  assumes "x \<le> y"
  shows "round_even x \<le> round_even y"
proof (cases "\<lfloor>x\<rfloor> = \<lfloor>y\<rfloor>")
  case True
  with assms show ?thesis by (auto simp: round_even_def Let_def)
next
  case False
  with assms have "\<lfloor>x\<rfloor> < \<lfloor>y\<rfloor>" using floor_mono [OF assms] by simp
  then have "\<lfloor>x\<rfloor> + 1 \<le> \<lfloor>y\<rfloor>" by simp
  moreover have "round_even x \<le> \<lfloor>x\<rfloor> + 1" by (simp add: round_even_def Let_def)
  moreover have "\<lfloor>y\<rfloor> \<le> round_even y" by (simp add: round_even_def Let_def)
  ultimately show ?thesis by linarith
qed

lemma round_even_minus: "round_even (- y) = - round_even y"
proof (cases "y \<in> \<int>")
  case True
  then obtain k where "y = of_int k" by (auto elim: Ints_cases)
  then show ?thesis by (simp flip: of_int_minus)
next
  case False
  then have ne: "y \<noteq> of_int \<lfloor>y\<rfloor>"
    by (metis Ints_of_int)
  then have f: "\<lfloor>- y\<rfloor> = - \<lfloor>y\<rfloor> - 1"
    by (simp add: floor_minus ceiling_altdef)
  have fr: "0 < y - of_int \<lfloor>y\<rfloor>"
    using ne of_int_floor_le [of y] by linarith
  show ?thesis
    unfolding round_even_def Let_def f using fr by (auto simp: field_simps)
qed

lemma round_even_ge:
  "of_int k \<le> y \<Longrightarrow> k \<le> round_even y"
  using round_even_mono [of "of_int k" y] by simp

lemma round_even_le:
  "y \<le> of_int k \<Longrightarrow> round_even y \<le> k"
  using round_even_mono [of y "of_int k"] by simp

lemma ulp_pos: "0 < ulp x"
  by (simp add: ulp_def pow2_pos)

lemma ulp_minus: "ulp (- x) = ulp x"
  by (simp add: ulp_def)

lemma dbl_0: "dbl 0 = 0"
  by (simp add: dbl_def)

lemma dbl_minus: "dbl (- x) = - dbl x"
  by (simp add: dbl_def ulp_minus round_even_minus)

lemma round_even_0: "round_even 0 = 0"
  by (simp add: round_even_def)

lemma dbl_ulp:
  "dbl x = ulp x * of_int (round_even (x / ulp x))"
  by (simp add: dbl_def round_even_0)

lemma dbl_nonneg:
  assumes "0 \<le> x"
  shows "0 \<le> dbl x"
proof -
  have "0 \<le> x / ulp x" using assms ulp_pos [of x] by simp
  then have "0 \<le> round_even (x / ulp x)" by (intro round_even_ge) simp
  then show ?thesis unfolding dbl_ulp using ulp_pos [of x] by simp
qed

lemma dbl_error_ulp: "\<bar>dbl x - x\<bar> \<le> ulp x / 2"
proof -
  define q where "q = ulp x"
  have q: "0 < q" by (simp add: q_def ulp_pos)
  have "dbl x - x = q * (of_int (round_even (x / q)) - x / q)"
    unfolding dbl_ulp q_def [symmetric] using q by (simp add: algebra_simps)
  then have "\<bar>dbl x - x\<bar> = q * \<bar>of_int (round_even (x / q)) - x / q\<bar>"
    using q by (simp add: abs_mult)
  also have "\<dots> \<le> q * (1 / 2)"
    using q round_even_error [of "x / q"] by (intro mult_left_mono) simp_all
  finally show ?thesis by (simp add: q_def)
qed

text \<open>The effective exponent of a positive number and what it says about the number.\<close>

lemma below_next_binade:
  assumes "0 < x"
  shows "x < 2 powi (max (exponent x) (- 1022) + 1)"
proof -
  have "x < 2 powi (exponent x + 1)" by (rule exponent_bounds [OF assms])
  also have "\<dots> \<le> 2 powi (max (exponent x) (- 1022) + 1)" by (simp add: pow2_le_iff)
  finally show ?thesis .
qed

lemma ulp_scaled:
  "ulp x * 2 ^ 53 = 2 powi (max (exponent \<bar>x\<bar>) (- 1022) + 1)"
  "ulp x * 2 ^ 52 = 2 powi (max (exponent \<bar>x\<bar>) (- 1022))"
proof -
  have a: "(2::real) ^ 53 = 2 powi 53" "(2::real) ^ 52 = 2 powi 52" by simp_all
  show "ulp x * 2 ^ 53 = 2 powi (max (exponent \<bar>x\<bar>) (- 1022) + 1)"
    unfolding ulp_def a pow2_add [symmetric] by (simp add: add.commute)
  show "ulp x * 2 ^ 52 = 2 powi (max (exponent \<bar>x\<bar>) (- 1022))"
    unfolding ulp_def a pow2_add [symmetric] by simp
qed

lemma dbl_upper:
  assumes "0 < x"
  shows "dbl x \<le> 2 powi (max (exponent x) (- 1022) + 1)"
    and "round_even (x / ulp x) \<le> 2 ^ 53"
proof -
  have ax: "\<bar>x\<bar> = x" using assms by simp
  note qs = ulp_scaled(1) [of x, unfolded ax]
  have "x < ulp x * 2 ^ 53" unfolding qs by (rule below_next_binade [OF assms])
  then have "x / ulp x \<le> of_int (2 ^ 53)"
    using ulp_pos [of x] by (simp add: field_simps)
  then show k: "round_even (x / ulp x) \<le> 2 ^ 53" by (rule round_even_le)
  then have "real_of_int (round_even (x / ulp x)) \<le> real_of_int (2 ^ 53)"
    by (simp only: of_int_le_iff)
  then have "ulp x * real_of_int (round_even (x / ulp x)) \<le> ulp x * 2 ^ 53"
    using ulp_pos [of x] by (intro mult_left_mono) simp_all
  then show "dbl x \<le> 2 powi (max (exponent x) (- 1022) + 1)"
    unfolding dbl_ulp qs .
qed

lemma dbl_lower:
  assumes "0 < x" and "- 1022 \<le> exponent x"
  shows "2 powi exponent x \<le> dbl x"
    and "2 ^ 52 \<le> round_even (x / ulp x)"
proof -
  have ax: "\<bar>x\<bar> = x" using assms by simp
  have m: "max (exponent x) (- 1022) = exponent x" using assms(2) by simp
  note qs = ulp_scaled(2) [of x, unfolded ax m]
  have "ulp x * 2 ^ 52 \<le> x" unfolding qs by (rule exponent_bounds [OF assms(1)])
  then have "of_int (2 ^ 52) \<le> x / ulp x"
    using ulp_pos [of x] by (simp add: field_simps)
  then show k: "2 ^ 52 \<le> round_even (x / ulp x)" by (rule round_even_ge)
  then have "real_of_int (2 ^ 52) \<le> real_of_int (round_even (x / ulp x))"
    by (simp only: of_int_le_iff)
  then have "ulp x * 2 ^ 52 \<le> ulp x * real_of_int (round_even (x / ulp x))"
    using ulp_pos [of x] by (intro mult_left_mono) simp_all
  then show "2 powi exponent x \<le> dbl x"
    unfolding dbl_ulp qs .
qed

lemma dbl_mono_pos:
  assumes "0 < x" and "x \<le> y"
  shows "dbl x \<le> dbl y"
proof -
  have y: "0 < y" using assms by simp
  have ax: "\<bar>x\<bar> = x" "\<bar>y\<bar> = y" using assms by simp_all
  define Ex where "Ex = max (exponent x) (- 1022)"
  define Ey where "Ey = max (exponent y) (- 1022)"
  have le: "Ex \<le> Ey"
    using exponent_mono [OF assms] by (simp add: Ex_def Ey_def)
  show ?thesis
  proof (cases "Ex = Ey")
    case True
    then have q: "ulp y = ulp x"
      by (simp add: ulp_def ax Ex_def Ey_def)
    have "x / ulp x \<le> y / ulp x"
      using assms(2) ulp_pos [of x] by (simp add: divide_right_mono)
    then have "round_even (x / ulp x) \<le> round_even (y / ulp x)"
      by (rule round_even_mono)
    then have "real_of_int (round_even (x / ulp x)) \<le> real_of_int (round_even (y / ulp x))"
      by (simp only: of_int_le_iff)
    then show ?thesis
      unfolding dbl_ulp q using ulp_pos [of x] by (intro mult_left_mono) simp_all
  next
    case False
    with le have lt: "Ex + 1 \<le> Ey" by simp
    then have n: "- 1022 \<le> exponent y" and ey: "Ey = exponent y"
      by (simp_all add: Ex_def Ey_def max_def split: if_splits)
    have "dbl x \<le> 2 powi (Ex + 1)" unfolding Ex_def by (rule dbl_upper [OF assms(1)])
    also have "\<dots> \<le> 2 powi Ey" using lt by (simp add: pow2_le_iff)
    also have "\<dots> \<le> dbl y" unfolding ey by (rule dbl_lower [OF y n])
    finally show ?thesis .
  qed
qed

lemma dbl_mono:
  assumes "x \<le> y"
  shows "dbl x \<le> dbl y"
proof -
  consider "0 < x" | "x \<le> 0" "0 \<le> y" | "y < 0" by linarith
  then show ?thesis
  proof cases
    case 1
    then show ?thesis using assms by (rule dbl_mono_pos)
  next
    case 2
    have "dbl x \<le> 0" using dbl_nonneg [of "- x"] 2(1) by (simp add: dbl_minus)
    also have "0 \<le> dbl y" using 2(2) by (rule dbl_nonneg)
    finally show ?thesis .
  next
    case 3
    then have "0 < - y" "- y \<le> - x" using assms by simp_all
    from dbl_mono_pos [OF this] show ?thesis by (simp add: dbl_minus)
  qed
qed

text \<open>A number \<open>k * 2^j\<close> with \<open>\<bar>k\<bar> \<le> 2^53\<close> and \<open>j \<ge> -1074\<close> is a double.\<close>

lemma dbl_representable_pos:
  assumes "0 < k" and "k \<le> 2 ^ 53" and "- 1074 \<le> j"
  shows "dbl (of_int k * 2 powi j) = of_int k * 2 powi j"
proof -
  define y where "y = real_of_int k * 2 powi j"
  have y: "0 < y" using assms(1) by (simp add: y_def pow2_pos)
  have ay: "\<bar>y\<bar> = y" using y by simp
  define E where "E = max (exponent y) (- 1022)"
  have q: "ulp y = 2 powi (E - 52)" by (simp add: ulp_def ay E_def)
  have "\<exists>i. y / ulp y = of_int i"
  proof (cases "k = 2 ^ 53")
    case True
    have p: "(2::real) ^ 53 = 2 powi 53" by simp
    have "y = 2 ^ 53 * 2 powi j" by (simp add: y_def True)
    then have y2: "y = 2 powi (j + 53)"
      unfolding p pow2_add [symmetric] by (simp add: add.commute)
    have "exponent y = j + 53"
      by (rule exponent_unique [OF y]) (simp_all add: y2 pow2_less_iff)
    then have "E = j + 53" using assms(3) by (simp add: E_def)
    then have "E - 52 = j + 1" by simp
    then have "ulp y = 2 powi (j + 1)" unfolding q by (rule arg_cong)
    then have "y / ulp y = 2 powi (j + 53) / 2 powi (j + 1)" by (simp only: y2)
    also have "(2::real) powi (j + 53) = 2 powi (52 + (j + 1))"
      by (rule arg_cong [where f = "power_int 2"]) simp
    also have "\<dots> = 2 powi 52 * 2 powi (j + 1)" by (rule pow2_add)
    also have "2 powi 52 * 2 powi (j + 1) / 2 powi (j + 1) = (2::real) powi 52"
      using pow2_pos [of "j + 1"] by simp
    also have "\<dots> = of_int (2 ^ 52)" by simp
    finally show ?thesis by blast
  next
    case False
    with assms(2) have "k < 2 ^ 53" by simp
    then have "real_of_int k < real_of_int (2 ^ 53)" by (simp only: of_int_less_iff)
    then have "real_of_int k < 2 ^ 53" by simp
    then have "y < 2 ^ 53 * 2 powi j"
      unfolding y_def using pow2_pos [of j] by (intro mult_strict_right_mono)
    moreover have p: "(2::real) ^ 53 = 2 powi 53" by simp
    ultimately have "y < 2 powi (j + 53)"
      unfolding p pow2_add [symmetric] by (simp add: add.commute)
    with exponent_bounds(1) [OF y] have "(2::real) powi exponent y < 2 powi (j + 53)" by simp
    then have "exponent y < j + 53" by (simp add: pow2_less_iff)
    then have E: "E \<le> j + 52" using assms(3) by (simp add: E_def)
    define d where "d = nat (j + 52 - E)"
    have "2 powi j = 2 powi (E - 52) * (2::real) powi (j + 52 - E)"
      by (simp add: pow2_add [symmetric])
    also have "(2::real) powi (j + 52 - E) = 2 ^ d"
      using E by (simp add: power_int_def d_def)
    finally have j: "2 powi j = 2 powi (E - 52) * (2::real) ^ d" .
    have yk: "y = of_int k * 2 ^ d * 2 powi (E - 52)"
      unfolding y_def j by (simp add: mult_ac)
    have "y / ulp y = y / 2 powi (E - 52)" by (simp only: q)
    also have "\<dots> = of_int k * 2 ^ d * 2 powi (E - 52) / 2 powi (E - 52)"
      by (simp only: yk [symmetric])
    also have "\<dots> = of_int k * 2 ^ d"
      using pow2_pos [of "E - 52"] by simp
    finally have "y / ulp y = of_int k * 2 ^ d" .
    also have "\<dots> = of_int (k * 2 ^ d)" by simp
    finally show ?thesis by blast
  qed
  then obtain i where i: "y / ulp y = of_int i" ..
  have "dbl y = ulp y * (y / ulp y)"
    unfolding dbl_ulp i by simp
  also have "\<dots> = y" using ulp_pos [of y] by simp
  finally show ?thesis by (simp add: y_def)
qed

lemma dbl_representable:
  assumes "\<bar>k\<bar> \<le> 2 ^ 53" and "- 1074 \<le> j"
  shows "dbl (of_int k * 2 powi j) = of_int k * 2 powi j"
proof -
  consider "0 < k" | "k = 0" | "k < 0" by linarith
  then show ?thesis
  proof cases
    case 1
    with assms show ?thesis by (intro dbl_representable_pos) simp_all
  next
    case 2
    then show ?thesis by (simp add: dbl_0)
  next
    case 3
    with assms have "dbl (of_int (- k) * 2 powi j) = of_int (- k) * 2 powi j"
      by (intro dbl_representable_pos) simp_all
    then show ?thesis by (simp add: dbl_minus)
  qed
qed

lemma dbl_of_int:
  assumes "\<bar>n\<bar> \<le> 2 ^ 53"
  shows "dbl (of_int n) = of_int n"
  using dbl_representable [OF assms, of 0] by simp

lemma dbl_idem: "dbl (dbl x) = dbl x"
proof -
  have pos: "dbl (dbl x) = dbl x" if x: "0 < x" for x
  proof -
    have ax: "\<bar>x\<bar> = x" using x by simp
    define k where "k = round_even (x / ulp x)"
    have k0: "0 \<le> k"
      unfolding k_def using x ulp_pos [of x] by (intro round_even_ge) simp
    have k1: "k \<le> 2 ^ 53" unfolding k_def by (rule dbl_upper [OF x])
    have r: "dbl x = of_int k * 2 powi (max (exponent x) (- 1022) - 52)"
      by (simp add: dbl_ulp k_def ulp_def ax)
    show ?thesis
      unfolding r using k0 k1 by (intro dbl_representable) simp_all
  qed
  consider "0 < x" | "x = 0" | "x < 0" by linarith
  then show ?thesis
  proof cases
    case 1
    then show ?thesis by (rule pos)
  next
    case 2
    then show ?thesis by (simp add: dbl_0)
  next
    case 3
    then have "dbl (dbl (- x)) = dbl (- x)" by (intro pos) simp
    then show ?thesis by (simp add: dbl_minus)
  qed
qed

lemma dbl_error: "\<bar>dbl x - x\<bar> \<le> \<bar>x\<bar> * 2 powi (- 53) + 2 powi (- 1075)"
proof (cases "x = 0")
  case True
  then show ?thesis by (simp add: dbl_0 pow2_pos less_imp_le)
next
  case False
  then have a: "0 < \<bar>x\<bar>" by simp
  have h: "ulp x / 2 = 2 powi (max (exponent \<bar>x\<bar>) (- 1022) - 53)"
  proof -
    have "ulp x / 2 = 2 powi (max (exponent \<bar>x\<bar>) (- 1022) - 52) * 2 powi (- 1)"
      by (simp add: ulp_def)
    then show ?thesis unfolding pow2_add [symmetric] by simp
  qed
  show ?thesis
  proof (cases "- 1022 \<le> exponent \<bar>x\<bar>")
    case True
    then have "ulp x / 2 = 2 powi exponent \<bar>x\<bar> * 2 powi (- 53)"
      unfolding h pow2_add [symmetric] by simp
    also have "\<dots> \<le> \<bar>x\<bar> * 2 powi (- 53)"
      using exponent_bounds(1) [OF a] pow2_pos [of "- 53"] by (intro mult_right_mono) simp_all
    finally have "ulp x / 2 \<le> \<bar>x\<bar> * 2 powi (- 53)" .
    with dbl_error_ulp [of x] pow2_pos [of "- 1075"] show ?thesis by linarith
  next
    case False
    then have "ulp x / 2 = 2 powi (- 1075)" unfolding h by simp
    with dbl_error_ulp [of x] a pow2_pos [of "- 53"] show ?thesis
      by (smt (verit) mult_nonneg_nonneg)
  qed
qed

lemma finite_number_exact:
  assumes "\<bar>n\<bar> \<le> 2 ^ 53"
  shows "finite_number n = Some n"
proof -
  have "\<bar>real_of_int n\<bar> = real_of_int \<bar>n\<bar>" by simp
  also have "\<dots> \<le> real_of_int (2 ^ 53)" using assms by (simp only: of_int_le_iff)
  also have "\<dots> < 2 ^ 1024" by simp
  finally have "\<not> 2 ^ 1024 \<le> \<bar>real_of_int n\<bar>" by simp
  then show ?thesis
    by (simp add: finite_number_def dbl_of_int [OF assms])
qed

subsection \<open>Parsing a time string\<close>

lemma is_digit_digit_char: "n < 10 \<Longrightarrow> is_digit (digit_char n)"
  by (simp add: is_digit_def digit_char_def)

lemma digit_char_not_colon: "n < 10 \<Longrightarrow> digit_char n \<noteq> CHR '':''"
proof
  assume n: "n < 10" and eq: "digit_char n = CHR '':''"
  from eq have "(of_char (digit_char n) :: nat) = of_char (CHR '':'')" by simp
  with n show False by (simp add: digit_char_def)
qed

lemma digit_val_digit_char: "n < 10 \<Longrightarrow> digit_val (digit_char n) = int n"
  by (simp add: digit_val_def digit_char_def)

lemma matches_hhmm_hhmm: "h < 100 \<Longrightarrow> m < 100 \<Longrightarrow> matches_hhmm (hhmm h m)"
  by (simp add: hhmm_def two_digits_def is_digit_digit_char)

lemma split_colon_hhmm:
  "h < 100 \<Longrightarrow> m < 100 \<Longrightarrow> split_colon (hhmm h m) = [two_digits h, two_digits m]"
  by (simp add: hhmm_def two_digits_def digit_char_not_colon)

lemma decimal_two_digits: "n < 100 \<Longrightarrow> decimal (two_digits n) = int n"
proof -
  assume n: "n < 100"
  have "int (n div 10) * 10 + int (n mod 10) = int n"
    by (simp add: zdiv_int zmod_int flip: of_nat_div of_nat_mod)
  with n show ?thesis
    by (simp add: two_digits_def decimal_def digit_val_digit_char)
qed

lemma Number_two_digits: "n < 100 \<Longrightarrow> Number (two_digits n) = Some (int n)"
proof -
  assume n: "n < 100"
  then have "\<bar>int n\<bar> \<le> 2 ^ 53" by simp
  from finite_number_exact [OF this] n show ?thesis
    by (simp add: Number_def decimal_two_digits) (simp add: two_digits_def is_digit_digit_char)
qed

lemma digit_char_not_space: "n < 10 \<Longrightarrow> \<not> is_space (digit_char n)"
  by (simp add: is_space_def digit_char_def)

lemma digit_char_not_sign:
  "n < 10 \<Longrightarrow> digit_char n \<noteq> CHR ''-'' \<and> digit_char n \<noteq> CHR ''+''"
proof -
  assume n: "n < 10"
  have "(of_char (digit_char n) :: nat) \<noteq> of_char (CHR ''-'')"
       "(of_char (digit_char n) :: nat) \<noteq> of_char (CHR ''+'')"
    using n by (simp_all add: digit_char_def)
  then show ?thesis by auto
qed

lemma parseInt10_two_digits: "n < 100 \<Longrightarrow> parseInt10 (two_digits n) = Some (int n)"
proof -
  assume n: "n < 100"
  have d: "n div 10 < 10" "n mod 10 < 10" using n by simp_all
  have "parseInt10 (two_digits n) = finite_number (decimal (two_digits n))"
    using d by (simp add: parseInt10_def two_digits_def digit_char_not_space
        digit_char_not_sign is_digit_digit_char)
  moreover have "\<bar>int n\<bar> \<le> 2 ^ 53" using n by simp
  ultimately show ?thesis using n by (simp add: decimal_two_digits finite_number_exact)
qed

text \<open>
  On a string \<open>HH:MM\<close> both revisions parse the two fields and run the same date
  computation, in every zone.
\<close>

lemma calc_hhmm:
  "h < 100 \<Longrightarrow> m < 100 \<Longrightarrow>
   calculateNextTrigger z now (hhmm h m) =
     Some (case setHours z now (int h) (int m) of
             None \<Rightarrow> None
           | Some c \<Rightarrow> if c \<le> now then addOneDay z c else Some c)"
  by (simp add: calculateNextTrigger_def matches_hhmm_hhmm split_colon_hhmm Number_two_digits)
     (simp add: hhmm_def two_digits_def)

lemma comp_hhmm:
  "h < 100 \<Longrightarrow> m < 100 \<Longrightarrow>
   computeNextTrigger z now (hhmm h m) =
     (case setHours z now (int h) (int m) of
        None \<Rightarrow> None
      | Some c \<Rightarrow> if c \<le> now then addOneDay z c else Some c)"
  by (simp add: computeNextTrigger_def split_colon_hhmm parseInt10_two_digits)

lemma is_digit_ex:
  assumes "is_digit c"
  shows "\<exists>n<10. c = digit_char n"
proof -
  define k :: nat where "k = of_char c"
  have k: "48 \<le> k" "k \<le> 57" using assms by (simp_all add: is_digit_def k_def)
  then have "k - 48 < 10" by arith
  moreover have "c = digit_char (k - 48)"
    using k by (simp add: digit_char_def k_def)
  ultimately show ?thesis by blast
qed

lemma two_digits_ex:
  assumes "is_digit a" "is_digit b"
  shows "\<exists>n<100. [a, b] = two_digits n"
proof -
  from assms obtain x y where x: "x < 10" "a = digit_char x" and y: "y < 10" "b = digit_char y"
    by (auto dest!: is_digit_ex)
  have "[a, b] = two_digits (10 * x + y)" using x y by (simp add: two_digits_def)
  moreover have "10 * x + y < 100" using x y by simp
  ultimately show ?thesis by blast
qed

lemma matches_hhmm_form:
  assumes "matches_hhmm s"
  shows "\<exists>h<100. \<exists>m<100. s = hhmm h m"
proof -
  from assms obtain a b c d e where s: "s = [a, b, c, d, e]"
    by (cases s rule: matches_hhmm.cases) auto
  with assms have dg: "is_digit a" "is_digit b" "c = CHR '':''" "is_digit d" "is_digit e"
    by simp_all
  from two_digits_ex [OF dg(1,2)] obtain h where h: "h < 100" "[a, b] = two_digits h" by blast
  from two_digits_ex [OF dg(4,5)] obtain m where m: "m < 100" "[d, e] = two_digits m" by blast
  have "s = hhmm h m" using s dg(3) h(2) m(2) by (simp add: hhmm_def)
  with h(1) m(1) show ?thesis by blast
qed

subsection \<open>Dates in a steady zone\<close>

text \<open>
  On the local times of valid dates the quotient in doubles has the floor of the
  exact quotient: \<^verbatim>\<open>Day\<close> is the integer quotient.
\<close>

lemma Day_exact:
  assumes "\<bar>t\<bar> \<le> maxTime + msPerDay"
  shows "Day t = t div msPerDay"
proof -
  define k where "k = t div 86400000"
  define r where "r = t mod 86400000"
  define x where "x = real_of_int t / 86400000"
  have r: "0 \<le> r" "r \<le> 86399999" by (simp_all add: r_def) 
  have t: "t = k * 86400000 + r" by (simp add: k_def r_def)
  have tb: "\<bar>t\<bar> \<le> 8640000086400000" using assms by (simp add: maxTime_def msPerDay_def)
  have xk: "x = of_int k + of_int r / 86400000" by (simp add: x_def t add_divide_distrib)
  have lo: "of_int k \<le> x" unfolding xk using r(1) by simp
  have "real_of_int r \<le> 86399999" using r(2) by linarith
  then have hi: "x \<le> of_int k + 1 - 1 / 86400000" unfolding xk by (simp add: field_simps)
  have kb: "\<bar>k\<bar> \<le> 100000001" using t r tb by linarith
  then have "\<bar>k\<bar> \<le> 2 ^ 53" by simp
  from dbl_of_int [OF this] dbl_mono [OF lo] have l: "of_int k \<le> dbl x" by simp
  have "\<bar>real_of_int t\<bar> \<le> 8640000086400000" using tb by linarith
  then have xb: "\<bar>x\<bar> \<le> 100000001" by (simp add: x_def field_simps)
  have eps: "(2::real) powi (- 53) = 1 / 9007199254740992" by (simp add: power_int_minus field_simps)
  have "(2::real) powi (- 1075) \<le> 2 powi (- 60)" by (simp add: pow2_le_iff)
  also have "\<dots> = 1 / 1152921504606846976" by (simp add: power_int_minus field_simps)
  finally have eta: "(2::real) powi (- 1075) \<le> 1 / 1152921504606846976" .
  have "\<bar>dbl x - x\<bar> \<le> \<bar>x\<bar> * 2 powi (- 53) + 2 powi (- 1075)" by (rule dbl_error)
  also have "\<dots> \<le> 100000001 * (1 / 9007199254740992) + 1 / 1152921504606846976"
    unfolding eps using xb eta by (intro add_mono mult_right_mono) simp_all
  also have "\<dots> < 1 / 86400000" by simp
  finally have "dbl x < x + 1 / 86400000" by linarith
  with hi have u: "dbl x < of_int k + 1" by linarith
  have "\<lfloor>dbl x\<rfloor> = k" using l u by (simp add: floor_eq_iff)
  then show ?thesis by (simp add: Day_def fdiv_def x_def k_def msPerDay_def)
qed














subsection \<open>The next trigger\<close>








text \<open>The facts that evaluate the date functions at a given instant in a given zone.\<close>

lemmas date_eval =
  setHours_def addOneDay_def MakeTime_def MakeDate_def finite_number_exact TimeClip_def
  Day_exact TimeWithinDay_def
  maxTime_def UTC_def possibleInstants_def tBefore_def LocalTime_def offsetAt_def
  msPerDay_def msPerHour_def msPerMinute_def getHours_def getMinutes_def msIntoMinute_def
  Let_def

lemma hhmm_0700: "hhmm 7 0 = ''07:00''"
  by code_simp



text \<open>
  Where the clocks go forward over the requested time, the result does not read
  that time: in New York on 10 March 2024 at 00:30, \<open>02:30\<close> gives 03:30 (EDT).
\<close>

lemma next_trigger_in_skipped_hour:
  "calculateNextTrigger new_york 1710048600000 ''02:30'' = Some (Some 1710055800000)
   \<and> getHours new_york 1710055800000 = 3 \<and> getMinutes new_york 1710055800000 = 30"
proof -
  have t: "hhmm 2 30 = ''02:30''" by code_simp
  have s: "setHours new_york 1710048600000 2 30 = Some 1710055800000"
    by (simp add: date_eval new_york_def)
  have c: "calculateNextTrigger new_york 1710048600000 ''02:30'' = Some (Some 1710055800000)"
    using calc_hhmm [of 2 30 new_york 1710048600000] s by (simp add: t)
  have f: "getHours new_york 1710055800000 = 3" "getMinutes new_york 1710055800000 = 30"
    by (simp_all add: date_eval new_york_def)
  from c f show ?thesis by simp
qed



subsection \<open>Startup load\<close>

lemma find_playlist_Some: "find_playlist (Some pid) ps = find (\<lambda>p. id_p p = pid) ps"
  by (simp add: find_playlist_def)

lemma normalize_alarm_reference:
  "falsy (playlistId (normalize_alarm ps a)) \<or>
   (\<exists>t. find_playlist (playlistId (normalize_alarm ps a)) ps = Some t \<and> fileIds t \<noteq> [])"
  by (auto simp: normalize_alarm_def falsy_def split: option.splits)

lemma normalize_alarm_armed_ok:
  "armed_ok (normalize_alarm ps a) ps = (if isOn a then \<not> falsy (playlistId a) else True)"
  by (auto simp: normalize_alarm_def armed_ok_def falsy_def split: option.splits)

text \<open>
  After the load the invariant holds for every stored record that names a playlist,
  consistent with the stored playlists or not. It fails only for a record that is on
  and names none, which the effect stores as it is.
\<close>

lemma load_effect_armed_ok:
  "armed_ok (alarm (load_effect savedMedia savedPlaylists saved s))
     (playlists (load_effect savedMedia savedPlaylists saved s))
   = (if isOn (merge_alarm saved) then \<not> falsy (playlistId (merge_alarm saved)) else True)"
  by (simp add: load_effect_def Let_def normalize_alarm_armed_ok)

text \<open>
  Claim C9. When the stored alarm record names a playlist id (a non-empty string)
  that is absent from the stored playlists, or whose first match has no track, the
  startup effect stores the merged alarm with \<open>playlistId\<close> null, \<open>isOn\<close> false and
  \<open>nextTrigger\<close> cleared; the armed-alarm invariant holds in the loaded state, and the
  scheduling effect run on that state arms no timer.
\<close>

theorem load_effect_normalizes_alarm:
  assumes "saved = Some a" and "s_playlistId a = Some pid" and "pid \<noteq> []"
    and "ps = (case savedPlaylists of None \<Rightarrow> [] | Some l \<Rightarrow> l)"
    and "missing_or_empty pid ps"
  shows "alarm (load_effect savedMedia savedPlaylists saved s) =
           (merge_alarm saved)\<lparr>playlistId := None, isOn := False, nextTrigger := None\<rparr>
       \<and> playlists (load_effect savedMedia savedPlaylists saved s) = ps
       \<and> armed_ok (alarm (load_effect savedMedia savedPlaylists saved s))
             (playlists (load_effect savedMedia savedPlaylists saved s))
       \<and> alarm_effect now (load_effect savedMedia savedPlaylists saved s) =
             detachAlarmTimeout (load_effect savedMedia savedPlaylists saved s)"
proof -
  let ?L = "load_effect savedMedia savedPlaylists saved s"
  have pl: "playlists ?L = ps"
    using assms(4) by (simp add: load_effect_def Let_def)
  have al: "alarm ?L = normalize_alarm ps (merge_alarm saved)"
    using assms(4) by (simp add: load_effect_def Let_def)
  have pid: "playlistId (merge_alarm saved) = Some pid"
    using assms(1,2) by (simp add: merge_alarm_def)
  have n: "normalize_alarm ps (merge_alarm saved) =
           (merge_alarm saved)\<lparr>playlistId := None, isOn := False, nextTrigger := None\<rparr>"
    using pid assms(3,5)
    by (simp add: normalize_alarm_def falsy_def find_playlist_Some missing_or_empty_def
        split: option.splits)
  have ok: "armed_ok (alarm ?L) (playlists ?L)"
    by (simp add: al n armed_ok_def)
  have "playlistId (alarm (detachAlarmTimeout ?L)) = None"
    by (simp add: detachAlarmTimeout_def al n split: option.splits)
  then have ae: "alarm_effect now ?L = detachAlarmTimeout ?L"
    by (simp add: alarm_effect_def Let_def)
  from al n pl ok ae show ?thesis by simp
qed

theorem load_effect_normalizes_alarm_witness:
  "s_playlistId saved_alarm_dangling = Some ''gone''
   \<and> ''gone'' \<noteq> [] \<and> missing_or_empty ''gone'' [list_p1]
   \<and> alarm (load_effect None (Some [list_p1]) (Some saved_alarm_dangling) (initial_Home False [])) =
        \<lparr>time = ''06:30'', playlistId = None, memo = [], isOn = False, nextTrigger = None\<rparr>
   \<and> armed_ok (alarm (load_effect None (Some [list_p1]) (Some saved_alarm_dangling) (initial_Home False [])))
        (playlists (load_effect None (Some [list_p1]) (Some saved_alarm_dangling) (initial_Home False [])))
   \<and> timers (alarm_effect 0 (load_effect None (Some [list_p1]) (Some saved_alarm_dangling) (initial_Home False []))) = []"
proof -
  have m: "missing_or_empty ''gone'' [list_p1]"
    by (simp add: missing_or_empty_def list_p1_def)
  have p: "s_playlistId saved_alarm_dangling = Some ''gone''"
    by (simp add: saved_alarm_dangling_def)
  note t = load_effect_normalizes_alarm [OF refl p _ refl, of "Some [list_p1]" None "initial_Home False []" 0]
  have d: "timers (detachAlarmTimeout (load_effect None (Some [list_p1]) (Some saved_alarm_dangling) (initial_Home False []))) = []"
    by (simp add: detachAlarmTimeout_def load_effect_def initial_Home_def Let_def)
  have mg: "(merge_alarm (Some saved_alarm_dangling))\<lparr>playlistId := None, isOn := False, nextTrigger := None\<rparr>
      = \<lparr>time = ''06:30'', playlistId = None, memo = [], isOn = False, nextTrigger = None\<rparr>"
    by (simp add: merge_alarm_def saved_alarm_dangling_def)
  from t m p d mg show ?thesis by (simp add: armed_ok_def)
qed

subsection \<open>Starting playback on a missing or empty playlist\<close>

lemma idle_update:
  "Idle s \<Longrightarrow> s\<lparr>playbackMessage := x, playbackPlaylistId := None, isPlaying := False\<rparr>
     = s\<lparr>playbackMessage := x\<rparr>"
  by (cases s) (simp add: Idle_def)

text \<open>
  Claim C5. \<^verbatim>\<open>startPlayback(playlistId, fromAlarm)\<close> on a playlist that is missing or
  has no track sets the error message, sets \<open>playbackPlaylistId\<close> to null and
  \<open>isPlaying\<close> to false, and changes nothing else: the cursor is idle afterwards, and
  from an idle cursor the message is the only change (the index and the URL stay as
  they were, so no track is loaded). \<^verbatim>\<open>beginPlayback\<close> of the earlier revision only
  sets its error message.
\<close>

theorem startPlayback_rejects_missing_or_empty:
  "(missing_or_empty pid (playlists s) \<longrightarrow>
      startPlayback pid fromAlarm s =
        s\<lparr>playbackMessage := NoPlayableTracks, playbackPlaylistId := None, isPlaying := False\<rparr>
      \<and> Idle (startPlayback pid fromAlarm s)
      \<and> (Idle s \<longrightarrow> startPlayback pid fromAlarm s = s\<lparr>playbackMessage := NoPlayableTracks\<rparr>))
   \<and> (missing_or_empty pid (playlists1 s1) \<longrightarrow>
      beginPlayback pid s1 = s1\<lparr>statusMessage1 := Some NoPlayableFiles\<rparr>)"
proof (intro conjI impI)
  assume m: "missing_or_empty pid (playlists s)"
  then show r: "startPlayback pid fromAlarm s =
        s\<lparr>playbackMessage := NoPlayableTracks, playbackPlaylistId := None, isPlaying := False\<rparr>"
    by (simp add: startPlayback_def reject_start_def missing_or_empty_def
        split: option.splits list.splits)
  show "Idle (startPlayback pid fromAlarm s)"
    by (simp add: r Idle_def)
  assume "Idle s"
  then show "startPlayback pid fromAlarm s = s\<lparr>playbackMessage := NoPlayableTracks\<rparr>"
    by (simp add: r idle_update)
next
  assume "missing_or_empty pid (playlists1 s1)"
  then show "beginPlayback pid s1 = s1\<lparr>statusMessage1 := Some NoPlayableFiles\<rparr>"
    by (simp add: beginPlayback_def missing_or_empty_def split: option.splits)
qed

theorem startPlayback_rejects_missing_or_empty_witness:
  "missing_or_empty ''p2'' (playlists home_p1) \<and> Idle home_p1
   \<and> startPlayback ''p2'' True home_p1 = home_p1\<lparr>playbackMessage := NoPlayableTracks\<rparr>
   \<and> Idle (startPlayback ''p2'' True home_p1)
   \<and> currentTrackIndex (startPlayback ''p2'' True home_p1) = 0
   \<and> missing_or_empty ''p2'' (playlists1 home1_idle)
   \<and> beginPlayback ''p2'' home1_idle = home1_idle\<lparr>statusMessage1 := Some NoPlayableFiles\<rparr>"
proof -
  have m: "missing_or_empty ''p2'' (playlists home_p1)"
    by (simp add: missing_or_empty_def home_p1_def list_p1_def)
  have i: "Idle home_p1"
    by (simp add: Idle_def home_p1_def initial_Home_def)
  have m1: "missing_or_empty ''p2'' (playlists1 home1_idle)"
    by (simp add: missing_or_empty_def home1_idle_def list_p1_def)
  have ix: "currentTrackIndex (home_p1\<lparr>playbackMessage := NoPlayableTracks\<rparr>) = 0"
    by (simp add: home_p1_def initial_Home_def)
  note t = startPlayback_rejects_missing_or_empty [of "''p2''" home_p1 True home1_idle]
  from t m i have a: "startPlayback ''p2'' True home_p1 = home_p1\<lparr>playbackMessage := NoPlayableTracks\<rparr>"
    by blast
  from t m have b: "Idle (startPlayback ''p2'' True home_p1)"
    by blast
  from t m1 have c: "beginPlayback ''p2'' home1_idle = home1_idle\<lparr>statusMessage1 := Some NoPlayableFiles\<rparr>"
    by blast
  from a ix have d: "currentTrackIndex (startPlayback ''p2'' True home_p1) = 0"
    by simp
  from m i a b d m1 c show ?thesis by blast
qed

subsection \<open>Mutations that empty or delete the alarm's playlist\<close>

lemma find_playlist_map_strip:
  "find_playlist x (map (\<lambda>playlist. playlist\<lparr>fileIds := g (fileIds playlist)\<rparr>) ps) =
   map_option (\<lambda>playlist. playlist\<lparr>fileIds := g (fileIds playlist)\<rparr>) (find_playlist x ps)"
  by (induction ps) (simp_all add: find_playlist_def)

lemma find_playlist_filter_other:
  "x \<noteq> Some i \<Longrightarrow>
   find_playlist x (filter (\<lambda>playlist. id_p playlist \<noteq> i) ps) = find_playlist x ps"
  by (induction ps) (auto simp: find_playlist_def)

lemma find_filter_deleted:
  "find (\<lambda>p. id_p p = i) (filter (\<lambda>playlist. id_p playlist \<noteq> i) ps) = None"
  by (induction ps) simp_all

lemma handleRemoveMedia_playlists:
  "playlists (handleRemoveMedia True i s) =
     map (\<lambda>playlist. playlist\<lparr>fileIds := filter (\<lambda>fileId. fileId \<noteq> i) (fileIds playlist)\<rparr>) (playlists s)"
  by (simp add: handleRemoveMedia_def Let_def)

lemma handleRemoveMedia_alarm:
  "alarm (handleRemoveMedia True i s) =
     (if falsy (playlistId (alarm s)) then alarm s
      else (case find_playlist (playlistId (alarm s)) (playlists s) of
              None \<Rightarrow> (alarm s)\<lparr>playlistId := None, isOn := False, nextTrigger := None\<rparr>
            | Some p \<Rightarrow>
                if filter (\<lambda>fileId. fileId \<noteq> i) (fileIds p) = []
                then (alarm s)\<lparr>isOn := False, nextTrigger := None\<rparr>
                else alarm s))"
  by (simp add: handleRemoveMedia_def Let_def find_playlist_map_strip split: option.splits)

lemma handleRemoveMedia_armed_ok:
  "armed_ok (alarm s) (playlists s) \<Longrightarrow>
   armed_ok (alarm (handleRemoveMedia c i s)) (playlists (handleRemoveMedia c i s))"
proof (cases c)
  case False
  assume "armed_ok (alarm s) (playlists s)"
  with False show ?thesis by (simp add: handleRemoveMedia_def)
next
  case True
  then have c: "c = True" by simp
  assume "armed_ok (alarm s) (playlists s)"
  then show ?thesis
    unfolding c handleRemoveMedia_playlists handleRemoveMedia_alarm
    by (auto simp: armed_ok_def find_playlist_map_strip split: option.splits if_splits)
qed

lemma handlePlaylistDelete_playlists:
  "playlists (handlePlaylistDelete True i s) = filter (\<lambda>playlist. id_p playlist \<noteq> i) (playlists s)"
  by (simp add: handlePlaylistDelete_def Let_def split: option.splits)

lemma handlePlaylistDelete_alarm:
  "alarm (handlePlaylistDelete True i s) =
     (if playlistId (alarm s) = Some i
      then (alarm s)\<lparr>playlistId := None, isOn := False, nextTrigger := None\<rparr>
      else alarm s)"
  by (simp add: handlePlaylistDelete_def Let_def split: option.splits)

lemma handlePlaylistDelete_armed_ok:
  "armed_ok (alarm s) (playlists s) \<Longrightarrow>
   armed_ok (alarm (handlePlaylistDelete c i s)) (playlists (handlePlaylistDelete c i s))"
proof (cases c)
  case False
  assume "armed_ok (alarm s) (playlists s)"
  with False show ?thesis by (simp add: handlePlaylistDelete_def)
next
  case True
  then have c: "c = True" by simp
  assume "armed_ok (alarm s) (playlists s)"
  then show ?thesis
    unfolding c handlePlaylistDelete_playlists handlePlaylistDelete_alarm
    by (auto simp: armed_ok_def find_playlist_filter_other split: option.splits if_splits)
qed

text \<open>
  Claim C3. Removing a media file and deleting a playlist both preserve the
  armed-alarm invariant (an alarm that is on names an existing playlist with at
  least one track). When the playlist the alarm names loses its last track through
  the removal, or is the playlist deleted, the handler itself leaves the alarm with
  \<open>isOn\<close> false and \<open>nextTrigger\<close> cleared: the disarmed alarm is part of the state
  the handler produces, with no call of the toggle and no timer involved.
\<close>

theorem emptying_mutations_disarm:
  assumes "armed_ok (alarm s) (playlists s)"
  shows "armed_ok (alarm (handleRemoveMedia c i s)) (playlists (handleRemoveMedia c i s))
       \<and> armed_ok (alarm (handlePlaylistDelete c i s)) (playlists (handlePlaylistDelete c i s))
       \<and> (\<forall>p. \<not> falsy (playlistId (alarm s))
              \<and> find_playlist (playlistId (alarm s)) (playlists s) = Some p
              \<and> set (fileIds p) \<subseteq> {i} \<longrightarrow>
              \<not> isOn (alarm (handleRemoveMedia True i s))
              \<and> nextTrigger (alarm (handleRemoveMedia True i s)) = None
              \<and> missing_or_empty (id_p p) (playlists (handleRemoveMedia True i s)))
       \<and> (playlistId (alarm s) = Some i \<longrightarrow>
              \<not> isOn (alarm (handlePlaylistDelete True i s))
              \<and> nextTrigger (alarm (handlePlaylistDelete True i s)) = None
              \<and> playlistId (alarm (handlePlaylistDelete True i s)) = None
              \<and> missing_or_empty i (playlists (handlePlaylistDelete True i s)))"
proof (intro conjI allI impI)
  show "armed_ok (alarm (handleRemoveMedia c i s)) (playlists (handleRemoveMedia c i s))"
    by (rule handleRemoveMedia_armed_ok [OF assms])
  show "armed_ok (alarm (handlePlaylistDelete c i s)) (playlists (handlePlaylistDelete c i s))"
    by (rule handlePlaylistDelete_armed_ok [OF assms])
next
  fix p
  assume a: "\<not> falsy (playlistId (alarm s))
              \<and> find_playlist (playlistId (alarm s)) (playlists s) = Some p
              \<and> set (fileIds p) \<subseteq> {i}"
  then have e: "filter (\<lambda>fileId. fileId \<noteq> i) (fileIds p) = []"
    by (auto simp: filter_empty_conv)
  from a e show "\<not> isOn (alarm (handleRemoveMedia True i s))"
    by (simp add: handleRemoveMedia_alarm)
  from a e show "nextTrigger (alarm (handleRemoveMedia True i s)) = None"
    by (simp add: handleRemoveMedia_alarm)
  from a obtain x where x: "playlistId (alarm s) = Some x" by (auto simp: falsy_def split: option.splits)
  with a have f: "find (\<lambda>q. id_p q = x) (playlists s) = Some p" by (simp add: find_playlist_def)
  then have "id_p p = x" by (auto simp: find_Some_iff)
  with a x e show "missing_or_empty (id_p p) (playlists (handleRemoveMedia True i s))"
    using find_playlist_map_strip [of "Some x" "filter (\<lambda>fileId. fileId \<noteq> i)" "playlists s"]
    by (simp add: missing_or_empty_def handleRemoveMedia_playlists find_playlist_def)
next
  assume a: "playlistId (alarm s) = Some i"
  then show "\<not> isOn (alarm (handlePlaylistDelete True i s))"
    "nextTrigger (alarm (handlePlaylistDelete True i s)) = None"
    "playlistId (alarm (handlePlaylistDelete True i s)) = None"
    by (simp_all add: handlePlaylistDelete_alarm)
  show "missing_or_empty i (playlists (handlePlaylistDelete True i s))"
    by (simp add: missing_or_empty_def handlePlaylistDelete_playlists find_filter_deleted)
qed

theorem emptying_mutations_disarm_witness:
  "armed_ok (alarm home_p1) (playlists home_p1)
   \<and> find_playlist (playlistId (alarm home_p1)) (playlists home_p1) = Some list_p1
   \<and> set (fileIds list_p1) \<subseteq> {''a''}
   \<and> \<not> isOn (alarm (handleRemoveMedia True ''a'' home_p1))
   \<and> nextTrigger (alarm (handleRemoveMedia True ''a'' home_p1)) = None
   \<and> armed_ok (alarm (handleRemoveMedia True ''a'' home_p1)) (playlists (handleRemoveMedia True ''a'' home_p1))
   \<and> playlistId (alarm home_p1) = Some ''p1''
   \<and> \<not> isOn (alarm (handlePlaylistDelete True ''p1'' home_p1))
   \<and> nextTrigger (alarm (handlePlaylistDelete True ''p1'' home_p1)) = None
   \<and> armed_ok (alarm (handlePlaylistDelete True ''p1'' home_p1)) (playlists (handlePlaylistDelete True ''p1'' home_p1))"
proof -
  have ok: "armed_ok (alarm home_p1) (playlists home_p1)"
    by (simp add: armed_ok_def home_p1_def list_p1_def falsy_def find_playlist_def)
  have f: "find_playlist (playlistId (alarm home_p1)) (playlists home_p1) = Some list_p1"
    by (simp add: home_p1_def list_p1_def find_playlist_def)
  have nf: "\<not> falsy (playlistId (alarm home_p1))"
    by (simp add: home_p1_def falsy_def)
  have sub: "set (fileIds list_p1) \<subseteq> {''a''}"
    by (simp add: list_p1_def)
  have pid: "playlistId (alarm home_p1) = Some ''p1''"
    by (simp add: home_p1_def)
  note t = emptying_mutations_disarm [OF ok, of True]
  from t [of "''a''"] nf f sub
  have r: "\<not> isOn (alarm (handleRemoveMedia True ''a'' home_p1))"
    "nextTrigger (alarm (handleRemoveMedia True ''a'' home_p1)) = None"
    "armed_ok (alarm (handleRemoveMedia True ''a'' home_p1)) (playlists (handleRemoveMedia True ''a'' home_p1))"
    by blast+
  from t [of "''p1''"] pid
  have d: "\<not> isOn (alarm (handlePlaylistDelete True ''p1'' home_p1))"
    "nextTrigger (alarm (handlePlaylistDelete True ''p1'' home_p1)) = None"
    "armed_ok (alarm (handlePlaylistDelete True ''p1'' home_p1)) (playlists (handlePlaylistDelete True ''p1'' home_p1))"
    by blast+
  from ok f sub r pid d show ?thesis by blast
qed

subsection \<open>Arming with a time that is not HH:MM\<close>

lemma calculateNextTrigger_rejects:
  "\<not> matches_hhmm t \<Longrightarrow> calculateNextTrigger z now t = None"
  by (simp add: calculateNextTrigger_def)

text \<open>
  Whatever the malformed time, the toggle of a switched-off alarm with a usable
  playlist switches it on and stores no trigger.
\<close>

lemma handleAlarmToggle_arms_without_trigger:
  assumes "\<not> falsy (playlistId (alarm s))"
    and "find_playlist (playlistId (alarm s)) (playlists s) = Some p"
    and "fileIds p \<noteq> []" and "\<not> isOn (alarm s)" and "\<not> matches_hhmm (time (alarm s))"
  shows "handleAlarmToggle z now s
           = Inr (s\<lparr>alarm := (alarm s)\<lparr>isOn := True, nextTrigger := None\<rparr>\<rparr>)"
  using assms by (simp add: handleAlarmToggle_def calculateNextTrigger_rejects Let_def)

text \<open>
  Claim C4. \<^verbatim>\<open>calculateNextTrigger\<close> returns null for every string that does not match
  the pattern (\<open>calculateNextTrigger_rejects\<close>). The second half of the claim, that arming with such
  a time leaves the alarm as it was, fails in \<^verbatim>\<open>handleAlarmToggle\<close>: with the time
  field empty, a playlist chosen and the alarm off, the toggle (at any clock
  reading, in any zone) turns \<open>isOn\<close> on and stores no \<open>nextTrigger\<close>.
\<close>

theorem handleAlarmToggle_unset_time_arms:
  "calculateNextTrigger z now (time (alarm home_unset_time)) = None
   \<and> \<not> isOn (alarm home_unset_time)
   \<and> handleAlarmToggle z now home_unset_time
       = Inr (home_unset_time\<lparr>alarm := (alarm home_unset_time)\<lparr>isOn := True, nextTrigger := None\<rparr>\<rparr>)
   \<and> isOn (alarm (home_unset_time\<lparr>alarm := (alarm home_unset_time)\<lparr>isOn := True, nextTrigger := None\<rparr>\<rparr>))
   \<and> nextTrigger (alarm (home_unset_time\<lparr>alarm := (alarm home_unset_time)\<lparr>isOn := True, nextTrigger := None\<rparr>\<rparr>))
       = None"
  by (simp add: home_unset_time_def home_p1_def list_p1_def initial_Home_def
      handleAlarmToggle_def calculateNextTrigger_def falsy_def find_playlist_def Let_def)

text \<open>The alarm now shown as on has no timer behind it.\<close>

lemma unset_time_no_timer:
  "timers (alarm_effect 1000
     (home_unset_time\<lparr>alarm := (alarm home_unset_time)\<lparr>isOn := True, nextTrigger := None\<rparr>\<rparr>)) = []"
  by (simp add: home_unset_time_def home_p1_def list_p1_def initial_Home_def
      falsy_def alarm_effect_def detachAlarmTimeout_def Let_def)

subsection \<open>The progress tick\<close>

lemma dbl_numeral: "(numeral k :: int) \<le> 2 ^ 53 \<Longrightarrow> dbl (numeral k) = numeral k"
  using dbl_of_int [of "numeral k"] by simp

lemma fadd_nonneg: "0 \<le> x \<Longrightarrow> 0 \<le> y \<Longrightarrow> 0 \<le> fadd x y"
  by (simp add: fadd_def dbl_nonneg)

lemma fadd_mono: "x \<le> x' \<Longrightarrow> y \<le> y' \<Longrightarrow> fadd x y \<le> fadd x' y'"
  by (simp add: fadd_def dbl_mono)

lemma fsub_antimono: "y \<le> y' \<Longrightarrow> fsub x y' \<le> fsub x y"
  by (simp add: fsub_def dbl_mono)

lemma foldl_fadd_map:
  "foldl (\<lambda>acc i. fadd acc (g i)) a xs = foldl fadd a (map g xs)"
  by (induction xs arbitrary: a) simp_all

lemma foldl_fadd_sum_doubles:
  "foldl (\<lambda>acc i. fadd acc (g i)) 0 xs = sum_doubles (map g xs)"
  unfolding sum_doubles_def by (rule foldl_fadd_map)

lemma foldl_fadd_nonneg:
  "0 \<le> a \<Longrightarrow> (\<And>x. x \<in> set xs \<Longrightarrow> 0 \<le> x) \<Longrightarrow> 0 \<le> foldl fadd a xs"
  by (induction xs arbitrary: a) (simp_all add: fadd_nonneg)

lemma sum_doubles_nonneg: "(\<And>x. x \<in> set xs \<Longrightarrow> 0 \<le> x) \<Longrightarrow> 0 \<le> sum_doubles xs"
  unfolding sum_doubles_def by (rule foldl_fadd_nonneg) simp_all

text \<open>The sum of a list that ends in \<open>x\<close> is a double that \<^verbatim>\<open>+\<close> has returned.\<close>

lemma sum_doubles_snoc: "sum_doubles (xs @ [x]) = fadd (sum_doubles xs) x"
  by (simp add: sum_doubles_def)

lemma sum_doubles_is_double: "dbl (sum_doubles xs) = sum_doubles xs"
proof (cases xs rule: rev_cases)
  case Nil
  then show ?thesis by (simp add: sum_doubles_def dbl_0)
next
  case (snoc ys y)
  then show ?thesis by (simp add: sum_doubles_snoc fadd_def dbl_idem)
qed

text \<open>Whole numbers add without rounding while the sum stays within \<open>2\<^sup>5\<^sup>3\<close>.\<close>

lemma foldl_fadd_exact:
  assumes "a = of_int \<lfloor>a\<rfloor>" and "0 \<le> a"
    and "\<And>x. x \<in> set xs \<Longrightarrow> x = of_int \<lfloor>x\<rfloor> \<and> 0 \<le> x"
    and "a + sum_list xs \<le> 2 ^ 53"
  shows "foldl fadd a xs = a + sum_list xs"
  using assms
proof (induction xs arbitrary: a)
  case Nil
  show ?case by simp
next
  case (Cons x xs)
  have x: "x = of_int \<lfloor>x\<rfloor>" "0 \<le> x" using Cons.prems(3) [of x] by simp_all
  have rest: "0 \<le> sum_list xs"
    by (rule sum_list_nonneg) (use Cons.prems(3) in auto)
  define n where "n = \<lfloor>a\<rfloor> + \<lfloor>x\<rfloor>"
  have ax: "a + x = of_int n"
    using Cons.prems(1) x(1) by (simp add: n_def)
  have "0 \<le> a + x" "a + x \<le> 2 ^ 53"
    using Cons.prems(2,4) x(2) rest by simp_all
  then have "0 \<le> real_of_int n" "real_of_int n \<le> real_of_int (2 ^ 53)"
    unfolding ax by simp_all
  then have "0 \<le> n" "n \<le> 2 ^ 53" by (simp_all only: of_int_le_iff of_int_0_le_iff)
  then have "\<bar>n\<bar> \<le> 2 ^ 53" by simp
  then have f: "fadd a x = a + x"
    unfolding fadd_def ax by (rule dbl_of_int)
  have "foldl fadd (a + x) xs = (a + x) + sum_list xs"
  proof (rule Cons.IH)
    show "a + x = of_int \<lfloor>a + x\<rfloor>" unfolding ax by simp
    show "0 \<le> a + x" by fact
    show "\<And>y. y \<in> set xs \<Longrightarrow> y = of_int \<lfloor>y\<rfloor> \<and> 0 \<le> y"
      using Cons.prems(3) by simp
    show "a + x + sum_list xs \<le> 2 ^ 53" using Cons.prems(4) by simp
  qed
  then show ?case by (simp add: f)
qed

lemma sum_doubles_exact:
  assumes "\<And>x. x \<in> set xs \<Longrightarrow> x = of_int \<lfloor>x\<rfloor> \<and> 0 \<le> x"
    and "sum_list xs \<le> 2 ^ 53"
  shows "sum_doubles xs = sum_list xs"
  unfolding sum_doubles_def
  using foldl_fadd_exact [of 0 xs] assms by simp

lemma map_entries_lookup:
  "distinct (map id_f files) \<Longrightarrow>
   foldl (\<lambda>m file. m(id_f file \<mapsto> file)) m0 files i =
     (case find (\<lambda>f. id_f f = i) files of None \<Rightarrow> m0 i | Some f \<Rightarrow> Some f)"
proof (induction files arbitrary: m0)
  case Nil
  then show ?case by simp
next
  case (Cons f fs)
  then have d: "distinct (map id_f fs)" and nf: "id_f f \<notin> id_f ` set fs" by simp_all
  show ?case
  proof (cases "id_f f = i")
    case True
    have "\<And>x. x \<in> set fs \<Longrightarrow> id_f x \<noteq> i"
      using nf True by (auto simp: image_iff)
    then have "find (\<lambda>g. id_f g = i) fs = None"
      by (simp add: find_None_iff)
    with True Cons.IH [OF d] show ?thesis by simp
  next
    case False
    with Cons.IH [OF d] show ?thesis by simp
  qed
qed

lemma duration_of_fun:
  "duration_of files = (\<lambda>i. duration_or_0 (find (\<lambda>f. id_f f = i) files))"
  by (simp add: fun_eq_iff duration_of_def)

lemma playlistDurationSec_sum:
  "distinct (map id_f files) \<Longrightarrow>
   playlistDurationSec playlist files = sum_doubles (map (duration_of files) (fileIds playlist))"
proof -
  assume d: "distinct (map id_f files)"
  have "\<And>i. foldl (\<lambda>m file. m(id_f file \<mapsto> file)) Map.empty files i = find (\<lambda>f. id_f f = i) files"
    using map_entries_lookup [OF d, of Map.empty] by (simp split: option.splits)
  then show ?thesis
    by (simp add: playlistDurationSec_def duration_of_fun foldl_fadd_sum_doubles)
qed

lemma duration_of_nonneg: "durations_ok files \<Longrightarrow> 0 \<le> duration_of files i"
proof -
  assume ok: "durations_ok files"
  show ?thesis
  proof (cases "find (\<lambda>f. id_f f = i) files")
    case None
    then show ?thesis by (simp add: duration_of_def duration_or_0_def)
  next
    case (Some f)
    then have "f \<in> set files" by (auto simp: find_Some_iff)
    with ok have "case durationSec f of None \<Rightarrow> True | Some d \<Rightarrow> 0 \<le> d"
      by (simp add: durations_ok_def list_all_iff)
    with Some show ?thesis
      by (simp add: duration_of_def duration_or_0_def split: option.splits)
  qed
qed

lemma duration_of_whole:
  "whole_seconds files \<Longrightarrow> duration_of files i = of_int \<lfloor>duration_of files i\<rfloor>"
proof -
  assume w: "whole_seconds files"
  show ?thesis
  proof (cases "find (\<lambda>f. id_f f = i) files")
    case None
    then show ?thesis by (simp add: duration_of_def duration_or_0_def)
  next
    case (Some f)
    then have "f \<in> set files" by (auto simp: find_Some_iff)
    with w have "case durationSec f of None \<Rightarrow> True | Some d \<Rightarrow> d = of_int \<lfloor>d\<rfloor>"
      by (simp add: whole_seconds_def list_all_iff)
    with Some show ?thesis
      by (simp add: duration_of_def duration_or_0_def split: option.splits)
  qed
qed

lemma sum_durations_nonneg:
  "durations_ok files \<Longrightarrow> 0 \<le> sum_doubles (map (duration_of files) xs)"
  by (rule sum_doubles_nonneg) (auto simp: duration_of_nonneg)

lemma sum_durations_exact:
  assumes "durations_ok files" and "whole_seconds files"
    and "sum_list (map (duration_of files) xs) \<le> 2 ^ 53"
  shows "sum_doubles (map (duration_of files) (take n xs))
           = sum_list (map (duration_of files) (take n xs))"
proof (rule sum_doubles_exact)
  fix x
  assume "x \<in> set (map (duration_of files) (take n xs))"
  then obtain i where "x = duration_of files i" by auto
  then show "x = of_int \<lfloor>x\<rfloor> \<and> 0 \<le> x"
    using duration_of_whole [OF assms(2), of i] duration_of_nonneg [OF assms(1), of i] by simp
next
  have "0 \<le> sum_list (map (duration_of files) (drop n xs))"
    by (rule sum_list_nonneg) (auto simp: duration_of_nonneg [OF assms(1)])
  moreover have "sum_list (map (duration_of files) xs) =
      sum_list (map (duration_of files) (take n xs)) + sum_list (map (duration_of files) (drop n xs))"
    by (simp flip: sum_list_append map_append)
  ultimately show "sum_list (map (duration_of files) (take n xs)) \<le> 2 ^ 53"
    using assms(3) by simp
qed

lemma progress_tick_unfold:
  assumes "find_playlist (playbackPlaylistId s) (playlists s) = Some playlist"
  shows "progress_tick s =
     s\<lparr>progressSnapshot :=
         \<lparr>remaining = max (fsub (playlistDurationSec playlist (mediaFiles s))
                              (fadd (sum_doubles (map (duration_of (mediaFiles s))
                                 (take (currentTrackIndex s) (fileIds playlist)))) (elapsed s))) 0,
          percent = (if playlistDurationSec playlist (mediaFiles s) > 0
                     then min 100 (round (fmul (fdiv (fadd (sum_doubles (map (duration_of (mediaFiles s))
                                 (take (currentTrackIndex s) (fileIds playlist)))) (elapsed s))
                               (playlistDurationSec playlist (mediaFiles s))) 100))
                     else 0)\<rparr>\<rparr>"
  using assms
  by (simp add: progress_tick_def Let_def foldl_fadd_sum_doubles duration_of_fun)

text \<open>
  The percentage in doubles against the percentage in exact arithmetic: after the
  clamp they differ by one at most.
\<close>

lemma round_near:
  fixes x y :: real
  assumes "\<bar>x - y\<bar> < 1"
  shows "\<bar>round x - round y\<bar> \<le> 1"
proof -
  have "round x \<le> round (y + 1)" using assms by (intro round_mono) simp
  moreover have "round (y - 1) \<le> round x" using assms by (intro round_mono) simp
  moreover have "round (y + 1) = round y + 1" "round (y - 1) = round y - 1"
    by (simp_all add: round_def algebra_simps) linarith+
  ultimately show ?thesis by simp
qed

lemma clamp_percent_near: "\<bar>p - q\<bar> \<le> 1 \<Longrightarrow> \<bar>clamp_percent p - clamp_percent q\<bar> \<le> 1"
  by (simp add: clamp_percent_def)

lemma percent_accuracy:
  assumes "0 \<le> p" and "0 < t"
  shows "\<bar>clamp_percent (round (fmul (fdiv p t) 100)) - clamp_percent (round (100 * p / t))\<bar> \<le> 1"
proof -
  define a where "a = p / t"
  define x where "x = dbl a"
  define q where "q = dbl (x * 100)"
  have a0: "0 \<le> a" using assms by (simp add: a_def)
  have x0: "0 \<le> x" unfolding x_def using a0 by (rule dbl_nonneg)
  have e: "fmul (fdiv p t) 100 = q" by (simp add: fmul_def fdiv_def q_def x_def a_def)
  have e': "100 * p / t = 100 * a" by (simp add: a_def)
  have eps: "(2::real) powi (- 53) \<le> 1 / 1000"
  proof -
    have "(2::real) powi (- 53) \<le> 2 powi (- 10)" by (simp add: pow2_le_iff)
    also have "\<dots> \<le> 1 / 1000" by (simp add: power_int_minus)
    finally show ?thesis .
  qed
  have eta: "(2::real) powi (- 1075) \<le> 1 / 1000"
  proof -
    have "(2::real) powi (- 1075) \<le> 2 powi (- 10)" by (simp add: pow2_le_iff)
    also have "\<dots> \<le> 1 / 1000" by (simp add: power_int_minus)
    finally show ?thesis .
  qed
  have two: "dbl 2 = 2" and h200: "dbl 200 = 200" by (simp_all add: dbl_numeral)
  show ?thesis
  proof (cases "a \<le> 2")
    case True
    have x2: "x \<le> 2" unfolding x_def using dbl_mono [OF True] by (simp add: two)
    have "\<bar>x - a\<bar> \<le> \<bar>a\<bar> * 2 powi (- 53) + 2 powi (- 1075)"
      unfolding x_def by (rule dbl_error)
    also have "\<dots> \<le> 2 * (1 / 1000) + 1 / 1000"
      using a0 True eps eta pow2_pos [of "- 53"]
      by (intro add_mono mult_mono) simp_all
    finally have d1: "\<bar>x - a\<bar> \<le> 3 / 1000" by simp
    have "\<bar>q - x * 100\<bar> \<le> \<bar>x * 100\<bar> * 2 powi (- 53) + 2 powi (- 1075)"
      unfolding q_def by (rule dbl_error)
    also have "\<dots> \<le> 200 * (1 / 1000) + 1 / 1000"
      using x0 x2 eps eta pow2_pos [of "- 53"]
      by (intro add_mono mult_mono) simp_all
    finally have d2: "\<bar>q - x * 100\<bar> \<le> 201 / 1000" by simp
    from d1 d2 have "\<bar>q - 100 * a\<bar> < 1" by linarith
    then have "\<bar>round q - round (100 * a)\<bar> \<le> 1" by (rule round_near)
    then show ?thesis unfolding e e' by (rule clamp_percent_near)
  next
    case False
    then have a2: "2 \<le> a" by simp
    have "2 \<le> x" unfolding x_def using dbl_mono [OF a2] by (simp add: two)
    then have "200 \<le> x * 100" by simp
    from dbl_mono [OF this] have "200 \<le> q" by (simp add: q_def h200)
    then have "round (200::real) \<le> round q" by (rule round_mono)
    then have 1: "100 \<le> round q" by simp
    have "200 \<le> 100 * a" using a2 by simp
    then have "round (200::real) \<le> round (100 * a)" by (rule round_mono)
    then have 2: "100 \<le> round (100 * a)" by simp
    show ?thesis unfolding e e' using 1 2 by (simp add: clamp_percent_def)
  qed
qed

text \<open>
  Claim C7, as stated, fails: the percentage is rounded from a quotient and a
  product in doubles. 23 seconds into a single track of 40 seconds the exact
  percentage is 57.5, which rounds to 58; the tick reports 57, because
  \<^verbatim>\<open>(23 / 40) * 100\<close> is 57.49999999999999 in doubles.
\<close>

lemma home_40_23_find:
  "find_playlist (playbackPlaylistId home_40_23) (playlists home_40_23) = Some list_40"
  by (simp add: home_40_23_def find_playlist_def list_40_def initial_Home_def)

lemma percent_23_of_40: "round (fmul (fdiv 23 40) 100) = 57"
  by code_simp

theorem percent_rounded_in_doubles:
  "find_playlist (playbackPlaylistId home_40_23) (playlists home_40_23) = Some list_40
   \<and> sum_list (map (duration_of (mediaFiles home_40_23)) (fileIds list_40)) = 40
   \<and> sum_list (map (duration_of (mediaFiles home_40_23))
        (take (currentTrackIndex home_40_23) (fileIds list_40))) + elapsed home_40_23 = 23
   \<and> round (100 * 23 / 40 :: real) = 58
   \<and> progressSnapshot (progress_tick home_40_23) = \<lparr>remaining = 17, percent = 57\<rparr>"
proof -
  note f = home_40_23_find
  have t1: "sum_list (map (duration_of (mediaFiles home_40_23)) (fileIds list_40)) = 40"
    by (simp add: home_40_23_def list_40_def duration_of_def duration_or_0_def track40_def
        initial_Home_def)
  have p1: "sum_list (map (duration_of (mediaFiles home_40_23))
        (take (currentTrackIndex home_40_23) (fileIds list_40))) + elapsed home_40_23 = 23"
    by (simp add: home_40_23_def list_40_def elapsed_def initial_Home_def)
  have r: "round (100 * 23 / 40 :: real) = 58" by (simp add: round_def)
  have t: "playlistDurationSec list_40 (mediaFiles home_40_23) = 40"
    by (simp add: playlistDurationSec_def home_40_23_def list_40_def duration_or_0_def
        track40_def initial_Home_def fadd_def dbl_numeral)
  have p: "fadd (sum_doubles (map (duration_of (mediaFiles home_40_23))
             (take (currentTrackIndex home_40_23) (fileIds list_40)))) (elapsed home_40_23) = 23"
    by (simp add: home_40_23_def list_40_def elapsed_def initial_Home_def sum_doubles_def
        fadd_def dbl_numeral)
  have d: "fsub 40 23 = 17" by (simp add: fsub_def dbl_numeral)
  have "progressSnapshot (progress_tick home_40_23) = \<lparr>remaining = 17, percent = 57\<rparr>"
    unfolding progress_tick_unfold [OF f] t p by (simp add: d percent_23_of_40)
  with f t1 p1 r show ?thesis by simp
qed

text \<open>
  Claim C7, amended. With the playing playlist found, media ids distinct, no
  negative stored duration and a non-negative playback position, a tick writes
  \<open>remaining = max (total - played) 0\<close> and \<open>percent = round ((played / total) * 100)\<close>
  clamped to 0..100 (0 when \<open>total = 0\<close>), each operation in double arithmetic:
  \<open>total\<close> is the sum, from 0 and left to right, of the stored durations of all tracks
  of the playlist, and \<open>played\<close> that sum over the tracks before the current index
  plus the element's position; a track with no stored duration, or with no media
  entry, counts 0. The percentage is within one of the exactly rounded
  \<open>round (100 * played / total)\<close>, the remaining seconds within one rounding error
  of the exact difference, and the two sums of durations are the exact sums when
  the stored durations are whole seconds with a total up to \<open>2\<^sup>5\<^sup>3\<close>. The tick is a
  total function of the state: missing durations raise nothing.
\<close>

theorem progress_tick_values:
  assumes "find_playlist (playbackPlaylistId s) (playlists s) = Some playlist"
    and "distinct (map id_f (mediaFiles s))"
    and "durations_ok (mediaFiles s)"
    and "0 \<le> elapsed s"
    and "totalDuration = sum_doubles (map (duration_of (mediaFiles s)) (fileIds playlist))"
    and "completed = sum_doubles (map (duration_of (mediaFiles s))
                       (take (currentTrackIndex s) (fileIds playlist)))"
    and "playedSeconds = fadd completed (elapsed s)"
  shows "progress_tick s =
           s\<lparr>progressSnapshot :=
               \<lparr>remaining = max (fsub totalDuration playedSeconds) 0,
                percent = (if totalDuration = 0 then 0
                           else clamp_percent (round (fmul (fdiv playedSeconds totalDuration) 100)))\<rparr>\<rparr>
       \<and> \<bar>percent (progressSnapshot (progress_tick s))
            - (if totalDuration = 0 then 0
               else clamp_percent (round (100 * playedSeconds / totalDuration)))\<bar> \<le> 1
       \<and> \<bar>remaining (progressSnapshot (progress_tick s)) - max (totalDuration - playedSeconds) 0\<bar>
            \<le> \<bar>totalDuration - playedSeconds\<bar> * 2 powi (- 53) + 2 powi (- 1075)
       \<and> (whole_seconds (mediaFiles s)
            \<and> sum_list (map (duration_of (mediaFiles s)) (fileIds playlist)) \<le> 2 ^ 53 \<longrightarrow>
              totalDuration = sum_list (map (duration_of (mediaFiles s)) (fileIds playlist))
              \<and> completed = sum_list (map (duration_of (mediaFiles s))
                               (take (currentTrackIndex s) (fileIds playlist))))"
proof -
  have t: "playlistDurationSec playlist (mediaFiles s) = totalDuration"
    using assms(2,5) by (simp add: playlistDurationSec_sum)
  have t0: "0 \<le> totalDuration"
    using assms(3,5) by (simp add: sum_durations_nonneg)
  have c0: "0 \<le> completed"
    using assms(3,6) by (simp add: sum_durations_nonneg)
  have p0: "0 \<le> playedSeconds"
    unfolding assms(7) using c0 assms(4) by (rule fadd_nonneg)
  have r0: "0 \<le> round (fmul (fdiv playedSeconds totalDuration) 100)" if "totalDuration > 0"
  proof -
    have "0 \<le> playedSeconds / totalDuration" using p0 that by simp
    then have "0 \<le> fdiv playedSeconds totalDuration" unfolding fdiv_def by (rule dbl_nonneg)
    then have "0 \<le> fdiv playedSeconds totalDuration * 100" by simp
    then have "0 \<le> fmul (fdiv playedSeconds totalDuration) 100"
      unfolding fmul_def by (rule dbl_nonneg)
    from round_mono [OF this] show ?thesis by simp
  qed
  have pc: "(if totalDuration > 0
             then min 100 (round (fmul (fdiv playedSeconds totalDuration) 100)) else 0)
          = (if totalDuration = 0 then 0
             else clamp_percent (round (fmul (fdiv playedSeconds totalDuration) 100)))"
    using t0 r0 by (auto simp: clamp_percent_def)
  note u = progress_tick_unfold [OF assms(1), unfolded t, folded assms(6), folded assms(7)]
  have v: "progress_tick s =
           s\<lparr>progressSnapshot :=
               \<lparr>remaining = max (fsub totalDuration playedSeconds) 0,
                percent = (if totalDuration = 0 then 0
                           else clamp_percent (round (fmul (fdiv playedSeconds totalDuration) 100)))\<rparr>\<rparr>"
    unfolding u by (simp only: pc)
  have pv: "percent (progressSnapshot (progress_tick s)) =
      (if totalDuration = 0 then 0
       else clamp_percent (round (fmul (fdiv playedSeconds totalDuration) 100)))"
    and rv: "remaining (progressSnapshot (progress_tick s)) = max (fsub totalDuration playedSeconds) 0"
    unfolding v by simp_all
  have acc: "\<bar>percent (progressSnapshot (progress_tick s))
            - (if totalDuration = 0 then 0
               else clamp_percent (round (100 * playedSeconds / totalDuration)))\<bar> \<le> 1"
  proof (cases "totalDuration = 0")
    case True
    then show ?thesis by (simp add: pv)
  next
    case False
    with t0 have "0 < totalDuration" by simp
    from percent_accuracy [OF p0 this] False show ?thesis by (simp add: pv)
  qed
  have "\<bar>max (fsub totalDuration playedSeconds) 0 - max (totalDuration - playedSeconds) 0\<bar>
          \<le> \<bar>fsub totalDuration playedSeconds - (totalDuration - playedSeconds)\<bar>"
    by (simp add: max_def)
  also have "\<dots> \<le> \<bar>totalDuration - playedSeconds\<bar> * 2 powi (- 53) + 2 powi (- 1075)"
    unfolding fsub_def by (rule dbl_error)
  finally have rem: "\<bar>remaining (progressSnapshot (progress_tick s))
                        - max (totalDuration - playedSeconds) 0\<bar>
            \<le> \<bar>totalDuration - playedSeconds\<bar> * 2 powi (- 53) + 2 powi (- 1075)"
    unfolding rv .
  have ex: "whole_seconds (mediaFiles s)
            \<and> sum_list (map (duration_of (mediaFiles s)) (fileIds playlist)) \<le> 2 ^ 53 \<longrightarrow>
              totalDuration = sum_list (map (duration_of (mediaFiles s)) (fileIds playlist))
              \<and> completed = sum_list (map (duration_of (mediaFiles s))
                               (take (currentTrackIndex s) (fileIds playlist)))"
  proof
    assume w: "whole_seconds (mediaFiles s)
            \<and> sum_list (map (duration_of (mediaFiles s)) (fileIds playlist)) \<le> 2 ^ 53"
    note se = sum_durations_exact [OF assms(3), of "fileIds playlist"]
    have "totalDuration = sum_list (map (duration_of (mediaFiles s)) (fileIds playlist))"
      unfolding assms(5) using se [of "length (fileIds playlist)"] w by simp
    moreover have "completed = sum_list (map (duration_of (mediaFiles s))
                               (take (currentTrackIndex s) (fileIds playlist)))"
      unfolding assms(6) using se [of "currentTrackIndex s"] w by simp
    ultimately show "totalDuration = sum_list (map (duration_of (mediaFiles s)) (fileIds playlist))
              \<and> completed = sum_list (map (duration_of (mediaFiles s))
                               (take (currentTrackIndex s) (fileIds playlist)))" ..
  qed
  from v acc rem ex show ?thesis by blast
qed

lemma home_three_sums:
  "sum_doubles (map (duration_of (mediaFiles home_three)) (fileIds list_three)) = 60"
  "sum_doubles (map (duration_of (mediaFiles home_three))
     (take (currentTrackIndex home_three) (fileIds list_three))) = 10"
  "fadd 10 (elapsed home_three) = 15"
  by (simp_all add: home_three_def list_three_def duration_of_def duration_or_0_def
      track10_def track20_def track30_def elapsed_def sum_doubles_def fadd_def dbl_numeral dbl_0)

lemma percent_15_of_60: "fsub 60 15 = 45" "round (fmul (fdiv 15 60) 100) = 25"
  by code_simp+

theorem progress_tick_values_witness:
  "find_playlist (playbackPlaylistId home_three) (playlists home_three) = Some list_three
   \<and> distinct (map id_f (mediaFiles home_three))
   \<and> durations_ok (mediaFiles home_three)
   \<and> 0 \<le> elapsed home_three
   \<and> whole_seconds (mediaFiles home_three)
   \<and> sum_doubles (map (duration_of (mediaFiles home_three)) (fileIds list_three)) = 60
   \<and> sum_list (map (duration_of (mediaFiles home_three)) (fileIds list_three)) = 60
   \<and> sum_doubles (map (duration_of (mediaFiles home_three))
        (take (currentTrackIndex home_three) (fileIds list_three))) = 10
   \<and> fadd 10 (elapsed home_three) = 15
   \<and> progressSnapshot (progress_tick home_three) = \<lparr>remaining = 45, percent = 25\<rparr>
   \<and> clamp_percent (round (100 * 15 / 60 :: real)) = 25"
proof -
  have f: "find_playlist (playbackPlaylistId home_three) (playlists home_three) = Some list_three"
    by (simp add: home_three_def find_playlist_def list_three_def)
  have d: "distinct (map id_f (mediaFiles home_three))"
    by (simp add: home_three_def track10_def track20_def track30_def)
  have ok: "durations_ok (mediaFiles home_three)"
    by (simp add: home_three_def durations_ok_def track10_def track20_def track30_def)
  have w: "whole_seconds (mediaFiles home_three)"
    by (simp add: home_three_def whole_seconds_def track10_def track20_def track30_def)
  have e: "0 \<le> elapsed home_three"
    by (simp add: home_three_def elapsed_def)
  have sl: "sum_list (map (duration_of (mediaFiles home_three)) (fileIds list_three)) = 60"
    by (simp add: home_three_def list_three_def duration_of_def duration_or_0_def
        track10_def track20_def track30_def)
  note s = home_three_sums
  have x: "clamp_percent (round (100 * 15 / 60 :: real)) = 25"
    by (simp add: clamp_percent_def round_def)
  from progress_tick_values [OF f d ok e s(1) [symmetric] s(2) [symmetric] s(3) [symmetric]]
  have "progressSnapshot (progress_tick home_three) = \<lparr>remaining = 45, percent = 25\<rparr>"
    by (simp add: percent_15_of_60 clamp_percent_def)
  with f d ok e w sl s x show ?thesis by blast
qed

subsection \<open>The progress snapshot stays in range\<close>

lemma snapshot_ok_zero: "snapshot_ok \<lparr>remaining = 0, percent = 0\<rparr>"
  by (simp add: snapshot_ok_def)

lemma snap_load: "progressSnapshot (load_effect m p a s) = progressSnapshot s"
  by (simp add: load_effect_def Let_def)

lemma snap_start: "progressSnapshot (startPlayback pid fromAlarm s) = progressSnapshot s"
  by (simp add: startPlayback_def reject_start_def Let_def split: option.splits list.splits)

lemma snap_stop: "progressSnapshot (stopPlayback s) = \<lparr>remaining = 0, percent = 0\<rparr>"
  by (simp add: stopPlayback_def)

lemma snap_advance:
  "progressSnapshot (advanceTrack reason s) = progressSnapshot s \<or>
   progressSnapshot (advanceTrack reason s) = \<lparr>remaining = 0, percent = 0\<rparr>"
  by (simp add: advanceTrack_def stopPlayback_def Let_def split: option.splits)

lemma snap_loadTrackUrl:
  "progressSnapshot (snd (loadTrackUrl i s)) = progressSnapshot s"
  by (simp add: loadTrackUrl_def Let_def split: option.splits)

lemma snap_setup:
  "progressSnapshot (track_setup s) = progressSnapshot s \<or>
   progressSnapshot (track_setup s) = \<lparr>remaining = 0, percent = 0\<rparr>"
proof (cases "currentTrack s")
  case None
  then show ?thesis by (simp add: track_setup_def)
next
  case (Some f)
  obtain r s1 where l: "loadTrackUrl (id_f f) s = (r, s1)"
    by (cases "loadTrackUrl (id_f f) s")
  then have p1: "progressSnapshot s1 = progressSnapshot s"
    using snap_loadTrackUrl [of "id_f f" s] by simp
  define s2 where "s2 = s1\<lparr>missingObjectUrl := True\<rparr>"
  have p2: "progressSnapshot s2 = progressSnapshot s"
    by (simp add: s2_def p1)
  show ?thesis
  proof (cases "r = None \<or> r = Some []")
    case True
    then have "track_setup s = advanceTrack None s2"
      using Some l by (auto simp: track_setup_def s2_def)
    with snap_advance [of None s2] p2 show ?thesis by simp
  next
    case False
    then obtain url where u: "r = Some url" "url \<noteq> []" by auto
    have "track_setup s = s1\<lparr>missingObjectUrl := False, currentTrackUrl := Some url\<rparr>"
      using Some l u by (simp add: track_setup_def)
    with p1 show ?thesis by simp
  qed
qed

lemma snap_tick:
  assumes "durations_ok (mediaFiles s)" and "0 \<le> elapsed s"
  shows "snapshot_ok (progressSnapshot (progress_tick s)) \<or>
         progressSnapshot (progress_tick s) = progressSnapshot s"
proof (cases "find_playlist (playbackPlaylistId s) (playlists s)")
  case None
  then show ?thesis by (simp add: progress_tick_def)
next
  case (Some playlist)
  define tot where "tot = playlistDurationSec playlist (mediaFiles s)"
  define played where "played = fadd (sum_doubles (map (duration_of (mediaFiles s))
      (take (currentTrackIndex s) (fileIds playlist)))) (elapsed s)"
  have p0: "0 \<le> played"
    unfolding played_def using sum_durations_nonneg [OF assms(1)] assms(2) by (rule fadd_nonneg)
  have r0: "0 < tot \<Longrightarrow> 0 \<le> round (fmul (fdiv played tot) 100)"
  proof -
    assume "0 < tot"
    with p0 have "0 \<le> played / tot" by simp
    then have "0 \<le> fdiv played tot" unfolding fdiv_def by (rule dbl_nonneg)
    then have "0 \<le> fdiv played tot * 100" by simp
    then have "0 \<le> fmul (fdiv played tot) 100" unfolding fmul_def by (rule dbl_nonneg)
    from round_mono [OF this] show ?thesis by simp
  qed
  note u = progress_tick_unfold [OF Some, folded tot_def, folded played_def]
  have "snapshot_ok (progressSnapshot (progress_tick s))"
    unfolding u using r0 by (simp add: snapshot_ok_def)
  then show ?thesis ..
qed

lemma snap_interval:
  assumes "durations_ok (mediaFiles s)" and "0 \<le> elapsed s"
  shows "snapshot_ok (progressSnapshot (progress_interval s)) \<or>
         progressSnapshot (progress_interval s) = progressSnapshot s"
  using snap_tick [OF assms] by (simp add: progress_interval_def)

lemma snap_remove: "progressSnapshot (handleRemoveMedia c i s) = progressSnapshot s"
  by (simp add: handleRemoveMedia_def Let_def)

lemma snap_delete: "progressSnapshot (handlePlaylistDelete c i s) = progressSnapshot s"
  by (simp add: handlePlaylistDelete_def Let_def split: option.splits)

lemma snap_detach: "progressSnapshot (detachAlarmTimeout s) = progressSnapshot s"
  by (simp add: detachAlarmTimeout_def split: option.splits)

lemma snap_toggle:
  "handleAlarmToggle z now s = Inr s' \<Longrightarrow> progressSnapshot s' = progressSnapshot s"
  by (auto simp: handleAlarmToggle_def Let_def snap_detach split: option.splits if_splits)

lemma snap_alarm: "progressSnapshot (alarm_effect now s) = progressSnapshot s"
  by (simp add: alarm_effect_def Let_def snap_detach split: option.splits prod.splits)

lemma reachable_snapshot_ok: "reachable s \<Longrightarrow> snapshot_ok (progressSnapshot s)"
proof (induction rule: reachable.induct)
  case (r_init ios stored)
  show ?case by (simp add: initial_Home_def snapshot_ok_zero)
next
  case (r_load s m p a)
  then show ?case by (simp add: snap_load)
next
  case (r_start s pid fromAlarm)
  then show ?case by (simp add: snap_start)
next
  case (r_stop s)
  show ?case by (simp add: snap_stop snapshot_ok_zero)
next
  case (r_advance s reason)
  with snap_advance [of reason s] show ?case by (auto simp: snapshot_ok_zero)
next
  case (r_setup s)
  with snap_setup [of s] show ?case by (auto simp: snapshot_ok_zero)
next
  case (r_tick s)
  with snap_interval [of s] show ?case by auto
next
  case (r_remove s c i)
  then show ?case by (simp add: snap_remove)
next
  case (r_delete s c i)
  then show ?case by (simp add: snap_delete)
next
  case (r_toggle s z now s')
  then show ?case by (simp add: snap_toggle)
next
  case (r_alarm s now)
  then show ?case by (simp add: snap_alarm)
next
  case (r_other s s')
  then show ?case by simp
qed

text \<open>
  Claim C10. In every reachable state the snapshot has \<open>remaining \<ge> 0\<close> and
  \<open>0 \<le> percent \<le> 100\<close>: the initial snapshot is \<open>{remaining: 0, percent: 0}\<close>, a
  tick writes values in range (the remaining time by its \<^verbatim>\<open>Math.max\<close>, the percentage
  by its \<^verbatim>\<open>Math.min\<close> and because stored durations and the playback position are
  never negative), \<^verbatim>\<open>stopPlayback\<close> writes \<open>{remaining: 0, percent: 0}\<close> whatever
  the state was, and nothing else writes the cell.
\<close>

theorem progress_snapshot_in_range:
  "(reachable s \<longrightarrow>
      0 \<le> remaining (progressSnapshot s) \<and> 0 \<le> percent (progressSnapshot s)
      \<and> percent (progressSnapshot s) \<le> 100)
   \<and> progressSnapshot (initial_Home ios stored) = \<lparr>remaining = 0, percent = 0\<rparr>
   \<and> progressSnapshot (stopPlayback s') = \<lparr>remaining = 0, percent = 0\<rparr>"
  using reachable_snapshot_ok [of s]
  by (simp add: snapshot_ok_def initial_Home_def snap_stop)

lemma home_three_tick:
  "progressSnapshot (progress_tick home_three) = \<lparr>remaining = 45, percent = 25\<rparr>"
proof -
  have f: "find_playlist (playbackPlaylistId home_three) (playlists home_three) = Some list_three"
    by (simp add: home_three_def find_playlist_def list_three_def)
  have t: "playlistDurationSec list_three (mediaFiles home_three) = 60"
    by (simp add: playlistDurationSec_def home_three_def list_three_def duration_or_0_def
        track10_def track20_def track30_def fadd_def dbl_numeral)
  show ?thesis
    unfolding progress_tick_unfold [OF f] t home_three_sums
    by (simp add: percent_15_of_60)
qed

text \<open>
  The state \<open>home_three\<close> is reached from the initial one by steps that leave the
  snapshot alone (loading, starting playback, the browser playing); then a tick
  runs.
\<close>

theorem progress_snapshot_in_range_witness:
  "reachable (progress_interval home_three)
   \<and> progressSnapshot (progress_interval home_three) = \<lparr>remaining = 45, percent = 25\<rparr>
   \<and> 0 \<le> remaining (progressSnapshot (progress_interval home_three))
   \<and> 0 \<le> percent (progressSnapshot (progress_interval home_three))
   \<and> percent (progressSnapshot (progress_interval home_three)) \<le> 100
   \<and> reachable (stopPlayback (progress_interval home_three))
   \<and> progressSnapshot (stopPlayback (progress_interval home_three)) = \<lparr>remaining = 0, percent = 0\<rparr>"
proof -
  have "reachable (initial_Home False [''t10'', ''t20'', ''t30''])" by (rule r_init)
  then have r3: "reachable home_three"
    by (rule r_other) (simp add: home_three_def initial_Home_def)
  have ok: "durations_ok (mediaFiles home_three)"
    by (simp add: home_three_def durations_ok_def track10_def track20_def track30_def)
  have e: "0 \<le> elapsed home_three"
    by (simp add: home_three_def elapsed_def)
  have rt: "reachable (progress_interval home_three)"
    by (rule r_tick [OF r3 ok e])
  have ct: "currentTrack home_three = Some track20"
    by (simp add: currentTrack_def home_three_def falsy_def find_playlist_def list_three_def
        track10_def track20_def track30_def)
  have pi: "progress_interval home_three = progress_tick home_three"
    using ct by (simp add: progress_interval_def) (simp add: home_three_def falsy_def)
  have v: "progressSnapshot (progress_interval home_three) = \<lparr>remaining = 45, percent = 25\<rparr>"
    unfolding pi by (rule home_three_tick)
  have rs: "reachable (stopPlayback (progress_interval home_three))"
    by (rule r_stop [OF rt])
  from progress_snapshot_in_range [of "progress_interval home_three" False "[]" "progress_interval home_three"] rt
  have rng: "0 \<le> remaining (progressSnapshot (progress_interval home_three))"
      "0 \<le> percent (progressSnapshot (progress_interval home_three))"
      "percent (progressSnapshot (progress_interval home_three)) \<le> 100"
      "progressSnapshot (stopPlayback (progress_interval home_three)) = \<lparr>remaining = 0, percent = 0\<rparr>"
    by simp_all
  from rt v rng rs show ?thesis by blast
qed

subsection \<open>Remaining seconds from tick to tick\<close>

lemma home_ab_first_tick:
  "progress_interval home_ab_first =
     home_ab_first\<lparr>progressSnapshot := \<lparr>remaining = 5, percent = 75\<rparr>\<rparr>"
proof -
  have f: "find_playlist (playbackPlaylistId home_ab_first) (playlists home_ab_first) = Some list_ab"
    by (simp add: home_ab_first_def find_playlist_def list_ab_def)
  have ct: "currentTrack home_ab_first = Some track_a"
    by (simp add: currentTrack_def home_ab_first_def falsy_def find_playlist_def list_ab_def
        track_a_def track_b_def)
  have pi: "progress_interval home_ab_first = progress_tick home_ab_first"
    using ct by (simp add: progress_interval_def) (simp add: home_ab_first_def falsy_def)
  have t: "playlistDurationSec list_ab (mediaFiles home_ab_first) = 20"
    by (simp add: playlistDurationSec_def home_ab_first_def list_ab_def duration_or_0_def
        track_a_def track_b_def fadd_def dbl_numeral dbl_0)
  have c: "fadd (sum_doubles (map (duration_of (mediaFiles home_ab_first))
             (take (currentTrackIndex home_ab_first) (fileIds list_ab)))) (elapsed home_ab_first) = 15"
    by (simp add: home_ab_first_def elapsed_def sum_doubles_def fadd_def dbl_numeral)
  have a: "fsub 20 15 = 5" "round (fmul (fdiv 15 20) 100) = 75" by code_simp+
  show ?thesis
    unfolding pi progress_tick_unfold [OF f] t c by (simp add: a)
qed

lemma home_ab_second_eq:
  "home_ab_second =
     home_ab_first\<lparr>progressSnapshot := \<lparr>remaining = 5, percent = 75\<rparr>,
        currentTrackIndex := 1, missingObjectUrl := False,
        currentTrackUrl := Some (createObjectURL ''b''),
        sessionUrls := [(''a'', createObjectURL ''a''), (''b'', createObjectURL ''b'')],
        element := Some \<lparr>currentTime = 1, paused = False\<rparr>\<rparr>"
  unfolding home_ab_second_def home_ab_first_tick
  by (simp add: advanceTrack_def falsy_def find_playlist_def home_ab_first_def list_ab_def
      track_setup_def currentTrack_def loadTrackUrl_def track_a_def track_b_def
      createObjectURL_def initial_Home_def Let_def)

lemma home_ab_second_tick:
  "progressSnapshot (progress_interval home_ab_second) = \<lparr>remaining = 19, percent = 5\<rparr>"
proof -
  have f: "find_playlist (playbackPlaylistId home_ab_second) (playlists home_ab_second) = Some list_ab"
    by (simp add: home_ab_second_eq home_ab_first_def find_playlist_def list_ab_def)
  have ct: "currentTrack home_ab_second = Some track_b"
    by (simp add: home_ab_second_eq currentTrack_def home_ab_first_def falsy_def find_playlist_def
        list_ab_def track_a_def track_b_def)
  have pi: "progress_interval home_ab_second = progress_tick home_ab_second"
    using ct by (simp add: progress_interval_def) (simp add: home_ab_second_eq home_ab_first_def falsy_def)
  have t: "playlistDurationSec list_ab (mediaFiles home_ab_second) = 20"
    by (simp add: playlistDurationSec_def home_ab_second_eq home_ab_first_def list_ab_def
        duration_or_0_def track_a_def track_b_def fadd_def dbl_numeral dbl_0)
  have c: "fadd (sum_doubles (map (duration_of (mediaFiles home_ab_second))
             (take (currentTrackIndex home_ab_second) (fileIds list_ab)))) (elapsed home_ab_second) = 1"
    by (simp add: home_ab_second_eq home_ab_first_def elapsed_def list_ab_def duration_of_def
        duration_or_0_def track_a_def track_b_def sum_doubles_def fadd_def dbl_0)
       (use dbl_of_int [of 1] in simp)
  have a: "fsub 20 1 = 19" "round (fmul (fdiv 1 20) 100) = 5" by code_simp+
  show ?thesis
    unfolding pi progress_tick_unfold [OF f] t c by (simp add: a)
qed

text \<open>
  Claim C8, as stated, fails. \<open>home_ab_first\<close> plays a two-track playlist whose
  first track has no stored duration; a tick 15 seconds in reports 5 seconds
  remaining (of the 20 stored for the second track). The track ends, the cursor
  advances, and the next tick, one second into the second track, reports 19.
\<close>

theorem remaining_rises_after_unknown_duration:
  "isPlaying (progress_interval home_ab_first) \<and> isPlaying home_ab_second
   \<and> currentTrackIndex (progress_interval home_ab_first) = 0
   \<and> currentTrackIndex home_ab_second = 1
   \<and> remaining (progressSnapshot (progress_interval home_ab_first)) = 5
   \<and> remaining (progressSnapshot (progress_interval home_ab_second)) = 19
   \<and> \<not> remaining (progressSnapshot (progress_interval home_ab_second))
         \<le> remaining (progressSnapshot (progress_interval home_ab_first))"
proof -
  have 1: "isPlaying (progress_interval home_ab_first)"
    "currentTrackIndex (progress_interval home_ab_first) = 0"
    "remaining (progressSnapshot (progress_interval home_ab_first)) = 5"
    by (simp_all add: home_ab_first_tick) (simp_all add: home_ab_first_def)
  have 2: "isPlaying home_ab_second" "currentTrackIndex home_ab_second = 1"
    by (simp_all add: home_ab_second_eq) (simp_all add: home_ab_first_def)
  have 3: "remaining (progressSnapshot (progress_interval home_ab_second)) = 19"
    by (simp add: home_ab_second_tick)
  from 1 2 3 show ?thesis by simp
qed

lemma remaining_tick:
  assumes "find_playlist (playbackPlaylistId s) (playlists s) = Some playlist"
  shows "remaining (progressSnapshot (progress_tick s)) =
           max (fsub (playlistDurationSec playlist (mediaFiles s))
                  (fadd (sum_doubles (map (duration_of (mediaFiles s))
                     (take (currentTrackIndex s) (fileIds playlist)))) (elapsed s))) 0"
  unfolding progress_tick_unfold [OF assms] by simp

lemma max_diff_antimono:
  "p1 \<le> p2 \<Longrightarrow> max (fsub t p2) 0 \<le> max (fsub t p1) 0"
  using fsub_antimono [of p1 p2 t] by (simp add: max_def)

text \<open>
  What is played grows across an advance over a track that is at least as long as
  the position reached in it: the sums are doubles, and adding keeps the order.
\<close>

lemma played_grows_across_advance:
  assumes "e1 \<le> d" and "0 \<le> e2"
  shows "fadd (sum_doubles xs) e1 \<le> fadd (sum_doubles (xs @ [d])) e2"
proof -
  define c2 where "c2 = sum_doubles (xs @ [d])"
  have "fadd (sum_doubles xs) e1 \<le> fadd (sum_doubles xs) d"
    using assms(1) by (intro fadd_mono) simp_all
  also have "\<dots> = c2" by (simp add: c2_def sum_doubles_snoc)
  also have "\<dots> = dbl c2" unfolding c2_def by (rule sum_doubles_is_double [symmetric])
  also have "\<dots> \<le> dbl (c2 + e2)" using assms(2) by (intro dbl_mono) simp
  finally show ?thesis by (simp add: fadd_def c2_def)
qed

lemma advanceTrack_at_end:
  assumes "\<not> falsy (playbackPlaylistId s)"
    and "find_playlist (playbackPlaylistId s) (playlists s) = Some playlist"
    and "length (fileIds playlist) \<le> Suc (currentTrackIndex s)"
  shows "progressSnapshot (advanceTrack reason s) = \<lparr>remaining = 0, percent = 0\<rparr>"
    and "Idle (advanceTrack reason s)"
  using assms by (simp_all add: advanceTrack_def stopPlayback_def Idle_def Let_def)

text \<open>
  Claim C8, amended. Between two ticks of one playback run over the same playlists
  and media data, the remaining seconds do not increase when the ticks are on the
  same track and the position has not gone back, nor across an advance from a
  track to the next when that track's stored duration is at least the position the
  earlier tick saw. When the cursor is on the last track and \<^verbatim>\<open>advanceTrack\<close> runs,
  playback stops and the snapshot's remaining seconds are 0.
\<close>

theorem remaining_falls_while_played_grows:
  assumes "find_playlist (playbackPlaylistId s1) (playlists s1) = Some playlist"
    and "playlists s2 = playlists s1"
    and "mediaFiles s2 = mediaFiles s1"
    and "playbackPlaylistId s2 = playbackPlaylistId s1"
  shows "(currentTrackIndex s2 = currentTrackIndex s1 \<and> elapsed s1 \<le> elapsed s2 \<longrightarrow>
            remaining (progressSnapshot (progress_tick s2))
              \<le> remaining (progressSnapshot (progress_tick s1)))
       \<and> (currentTrackIndex s2 = Suc (currentTrackIndex s1)
            \<and> currentTrackIndex s1 < length (fileIds playlist)
            \<and> elapsed s1 \<le> duration_of (mediaFiles s1) (fileIds playlist ! currentTrackIndex s1)
            \<and> 0 \<le> elapsed s2 \<longrightarrow>
            remaining (progressSnapshot (progress_tick s2))
              \<le> remaining (progressSnapshot (progress_tick s1)))
       \<and> (\<not> falsy (playbackPlaylistId s1)
            \<and> length (fileIds playlist) \<le> Suc (currentTrackIndex s1) \<longrightarrow>
            remaining (progressSnapshot (advanceTrack reason s1)) = 0
            \<and> Idle (advanceTrack reason s1))"
proof (intro conjI impI)
  have f2: "find_playlist (playbackPlaylistId s2) (playlists s2) = Some playlist"
    using assms by simp
  note r1 = remaining_tick [OF assms(1)]
  note r2 = remaining_tick [OF f2, unfolded assms(3)]
  {
    assume a: "currentTrackIndex s2 = currentTrackIndex s1 \<and> elapsed s1 \<le> elapsed s2"
    then show "remaining (progressSnapshot (progress_tick s2))
              \<le> remaining (progressSnapshot (progress_tick s1))"
      unfolding r1 r2 by (intro max_diff_antimono fadd_mono) simp_all
  }
  {
    assume a: "currentTrackIndex s2 = Suc (currentTrackIndex s1)
            \<and> currentTrackIndex s1 < length (fileIds playlist)
            \<and> elapsed s1 \<le> duration_of (mediaFiles s1) (fileIds playlist ! currentTrackIndex s1)
            \<and> 0 \<le> elapsed s2"
    then have tk: "map (duration_of (mediaFiles s1)) (take (currentTrackIndex s2) (fileIds playlist)) =
               map (duration_of (mediaFiles s1)) (take (currentTrackIndex s1) (fileIds playlist))
                 @ [duration_of (mediaFiles s1) (fileIds playlist ! currentTrackIndex s1)]"
      by (simp add: take_Suc_conv_app_nth)
    from a show "remaining (progressSnapshot (progress_tick s2))
              \<le> remaining (progressSnapshot (progress_tick s1))"
      unfolding r1 r2 tk by (intro max_diff_antimono played_grows_across_advance) simp_all
  }
  {
    assume a: "\<not> falsy (playbackPlaylistId s1)
            \<and> length (fileIds playlist) \<le> Suc (currentTrackIndex s1)"
    with advanceTrack_at_end [OF _ assms(1), of reason]
    show "remaining (progressSnapshot (advanceTrack reason s1)) = 0"
      "Idle (advanceTrack reason s1)"
      by simp_all
  }
qed

lemma home_three_find:
  "find_playlist (playbackPlaylistId home_three) (playlists home_three) = Some list_three"
  by (simp add: home_three_def find_playlist_def list_three_def)

theorem remaining_falls_while_played_grows_witness:
  "find_playlist (playbackPlaylistId home_three) (playlists home_three) = Some list_three
   \<and> elapsed home_three \<le> elapsed home_three_8
   \<and> remaining (progressSnapshot (progress_tick home_three_8))
        \<le> remaining (progressSnapshot (progress_tick home_three))
   \<and> currentTrackIndex home_three_last = Suc (currentTrackIndex home_three_20)
   \<and> elapsed home_three_20 \<le> duration_of (mediaFiles home_three_20)
        (fileIds list_three ! currentTrackIndex home_three_20)
   \<and> remaining (progressSnapshot (progress_tick home_three_last))
        \<le> remaining (progressSnapshot (progress_tick home_three_20))
   \<and> length (fileIds list_three) \<le> Suc (currentTrackIndex home_three_last)
   \<and> remaining (progressSnapshot (advanceTrack None home_three_last)) = 0
   \<and> Idle (advanceTrack None home_three_last)"
proof -
  note f = home_three_find
  have f20: "find_playlist (playbackPlaylistId home_three_20) (playlists home_three_20) = Some list_three"
    using f by (simp add: home_three_20_def)
  have fl: "find_playlist (playbackPlaylistId home_three_last) (playlists home_three_last) = Some list_three"
    using f by (simp add: home_three_last_def)
  have e8: "elapsed home_three \<le> elapsed home_three_8"
    by (simp add: home_three_8_def home_three_def elapsed_def)
  from remaining_falls_while_played_grows [OF f, of home_three_8 None] e8
  have a: "remaining (progressSnapshot (progress_tick home_three_8))
        \<le> remaining (progressSnapshot (progress_tick home_three))"
    by (simp add: home_three_8_def)
  have ix: "currentTrackIndex home_three_last = Suc (currentTrackIndex home_three_20)"
    "currentTrackIndex home_three_20 < length (fileIds list_three)"
    "0 \<le> elapsed home_three_last"
    by (simp_all add: home_three_last_def home_three_20_def home_three_def list_three_def elapsed_def)
  have d: "elapsed home_three_20 \<le> duration_of (mediaFiles home_three_20)
        (fileIds list_three ! currentTrackIndex home_three_20)"
    by (simp add: home_three_20_def home_three_def list_three_def elapsed_def duration_of_def
        duration_or_0_def track10_def track20_def track30_def)
  from remaining_falls_while_played_grows [OF f20, of home_three_last None] ix d
  have b: "remaining (progressSnapshot (progress_tick home_three_last))
        \<le> remaining (progressSnapshot (progress_tick home_three_20))"
    by (simp add: home_three_last_def home_three_20_def)
  have n: "\<not> falsy (playbackPlaylistId home_three_last)"
    "length (fileIds list_three) \<le> Suc (currentTrackIndex home_three_last)"
    by (simp_all add: home_three_last_def home_three_def falsy_def list_three_def)
  from remaining_falls_while_played_grows [OF fl refl refl refl, of None] n
  have c: "remaining (progressSnapshot (advanceTrack None home_three_last)) = 0"
    "Idle (advanceTrack None home_three_last)"
    by simp_all
  from f e8 a ix(1) d b n(2) c show ?thesis by blast
qed

subsection \<open>Arming the timer\<close>

lemma clearTimeout_tracked:
  "list_all (\<lambda>(h', t). r = Some h' \<and> h' \<noteq> 0) ts \<Longrightarrow> r = Some h \<Longrightarrow> clearTimeout h ts = []"
  by (induction ts) (auto simp: clearTimeout_def)

lemma tracked_no_ref:
  "list_all (\<lambda>(h', t). r = Some h' \<and> h' \<noteq> 0) ts \<Longrightarrow> r = None \<or> r = Some 0 \<Longrightarrow> ts = []"
  by (cases ts) auto

lemma detach_timers:
  assumes "timers_tracked s"
  shows "timers (detachAlarmTimeout s) = []"
proof (cases "alarmTimeoutRef s")
  case None
  with assms tracked_no_ref [of "alarmTimeoutRef s" "timers s"] show ?thesis
    by (simp add: detachAlarmTimeout_def timers_tracked_def)
next
  case (Some h)
  show ?thesis
  proof (cases "h = 0")
    case True
    with Some assms tracked_no_ref [of "alarmTimeoutRef s" "timers s"] show ?thesis
      by (simp add: detachAlarmTimeout_def timers_tracked_def)
  next
    case False
    with Some assms clearTimeout_tracked [of "alarmTimeoutRef s" "timers s" h] show ?thesis
      by (simp add: detachAlarmTimeout_def timers_tracked_def)
  qed
qed

lemma detach_frame:
  "alarm (detachAlarmTimeout s) = alarm s" "timerSeq (detachAlarmTimeout s) = timerSeq s"
  by (simp_all add: detachAlarmTimeout_def split: option.splits)

lemma alarm_effect_alarm: "alarm (alarm_effect now s) = alarm s"
  by (simp add: alarm_effect_def Let_def detach_frame split: option.splits)

lemma alarm_effect_scheduled:
  assumes "timers_tracked s" and "isOn (alarm s)" and "playlistId (alarm s) = Some pid"
    and "pid \<noteq> []" and "nextTrigger (alarm s) = Some t"
  shows "timers (alarm_effect now s) =
           [(Suc (timerSeq s),
             \<lparr>delay = max (t - now) 0, firePlaylistId = pid, fireTime = time (alarm s)\<rparr>)]"
    and "alarmTimeoutRef (alarm_effect now s) = Some (Suc (timerSeq s))"
    and "timers_tracked (alarm_effect now s)"
proof -
  define d where "d = detachAlarmTimeout s"
  have d: "timers d = []" "alarm d = alarm s" "timerSeq d = timerSeq s"
    using detach_timers [OF assms(1)] by (simp_all add: d_def detach_frame)
  have e: "alarm_effect now s =
        d\<lparr>timers := timers d @ [(Suc (timerSeq d),
              \<lparr>delay = max (t - now) 0, firePlaylistId = pid, fireTime = time (alarm d)\<rparr>)],
          alarmTimeoutRef := Some (Suc (timerSeq d)), timerSeq := Suc (timerSeq d)\<rparr>"
    using assms(2-5) d(2) by (simp add: alarm_effect_def Let_def flip: d_def)
  show "timers (alarm_effect now s) =
           [(Suc (timerSeq s),
             \<lparr>delay = max (t - now) 0, firePlaylistId = pid, fireTime = time (alarm s)\<rparr>)]"
    unfolding e using d by simp
  show "alarmTimeoutRef (alarm_effect now s) = Some (Suc (timerSeq s))"
    unfolding e using d by simp
  show "timers_tracked (alarm_effect now s)"
    unfolding e using d by (simp add: timers_tracked_def)
qed

lemma alarm_effect_not_scheduled:
  assumes "timers_tracked s" and "nextTrigger (alarm s) = None"
  shows "timers (alarm_effect now s) = []"
proof -
  have "alarm_effect now s = detachAlarmTimeout s"
    using assms(2) by (simp add: alarm_effect_def Let_def detach_frame split: option.splits)
  with detach_timers [OF assms(1)] show ?thesis by simp
qed


lemma clear1_timers:
  assumes "timers_tracked1 s"
  shows "timers1 (clearAlarmTimeout1 s) = []"
proof (cases "timeoutRef1 s")
  case None
  with assms tracked_no_ref [of "timeoutRef1 s" "timers1 s"] show ?thesis
    by (simp add: clearAlarmTimeout1_def timers_tracked1_def)
next
  case (Some h)
  show ?thesis
  proof (cases "h = 0")
    case True
    with Some assms tracked_no_ref [of "timeoutRef1 s" "timers1 s"] show ?thesis
      by (simp add: clearAlarmTimeout1_def timers_tracked1_def)
  next
    case False
    with Some assms clearTimeout_tracked [of "timeoutRef1 s" "timers1 s" h] show ?thesis
      by (simp add: clearAlarmTimeout1_def timers_tracked1_def)
  qed
qed

lemma clear1_frame:
  "alarm1 (clearAlarmTimeout1 s) = alarm1 s" "timerSeq1 (clearAlarmTimeout1 s) = timerSeq1 s"
  "hydrated1 (clearAlarmTimeout1 s) = hydrated1 s"
  by (simp_all add: clearAlarmTimeout1_def split: option.splits)

lemma alarm_effect1_reuse:
  assumes "timers_tracked1 s" and "hydrated1 s" and "isOn (alarm1 s)" and "time (alarm1 s) \<noteq> []"
    and "\<not> falsy (playlistId (alarm1 s))"
    and "nextTrigger (alarm1 s) = Some e" and "now < e" and "e \<noteq> 0"
  shows "alarm1 (alarm_effect1 z now s) = alarm1 s"
    and "map (\<lambda>(h, t). delay t) (timers1 (alarm_effect1 z now s)) = [max (e - now) 0]"
    and "timers_tracked1 (alarm_effect1 z now s)"
proof -
  define d where "d = clearAlarmTimeout1 s"
  have d: "timers1 d = []" "alarm1 d = alarm1 s" "timerSeq1 d = timerSeq1 s"
    using clear1_timers [OF assms(1)] by (simp_all add: d_def clear1_frame)
  have e: "alarm_effect1 z now s =
        d\<lparr>timers1 := timers1 d @ [(Suc (timerSeq1 d),
              \<lparr>delay = max (e - now) 0, firePlaylistId = the (playlistId (alarm1 d)),
               fireTime = time (alarm1 d)\<rparr>)],
          timeoutRef1 := Some (Suc (timerSeq1 d)), timerSeq1 := Suc (timerSeq1 d)\<rparr>"
    using assms(2-8) d(2) by (simp add: alarm_effect1_def Let_def flip: d_def)
  show "alarm1 (alarm_effect1 z now s) = alarm1 s"
    unfolding e using d by simp
  show "map (\<lambda>(h, t). delay t) (timers1 (alarm_effect1 z now s)) = [max (e - now) 0]"
    unfolding e using d by simp
  show "timers_tracked1 (alarm_effect1 z now s)"
    unfolding e using d by (simp add: timers_tracked1_def)
qed

lemma alarm_effect1_fresh:
  assumes "timers_tracked1 s" and "hydrated1 s" and "isOn (alarm1 s)" and "time (alarm1 s) \<noteq> []"
    and "\<not> falsy (playlistId (alarm1 s))"
    and "nextTrigger (alarm1 s) = None \<or> (\<exists>e. nextTrigger (alarm1 s) = Some e \<and> e \<le> now)"
    and "computeNextTrigger z now (time (alarm1 s)) = Some f" and "now < f"
  shows "alarm_effect1 z now s =
           (clearAlarmTimeout1 s)\<lparr>alarm1 := (alarm1 s)\<lparr>nextTrigger := Some f\<rparr>\<rparr>"
    and "timers1 (alarm_effect1 z now s) = []"
    and "timers_tracked1 (alarm_effect1 z now s)"
proof -
  define d where "d = clearAlarmTimeout1 s"
  have d: "timers1 d = []" "alarm1 d = alarm1 s" "timerSeq1 d = timerSeq1 s"
    using clear1_timers [OF assms(1)] by (simp_all add: d_def clear1_frame)
  have nt: "(case nextTrigger (alarm1 s) of
               None \<Rightarrow> computeNextTrigger z now (time (alarm1 s))
             | Some e \<Rightarrow> if e \<noteq> 0 \<and> now < e then Some e
                         else computeNextTrigger z now (time (alarm1 s))) = Some f"
    using assms(6,7) by (auto split: option.splits)
  have ne: "Some f \<noteq> nextTrigger (alarm1 s)"
    using assms(6,8) by auto
  have "alarm_effect1 z now s = d\<lparr>alarm1 := (alarm1 d)\<lparr>nextTrigger := Some f\<rparr>\<rparr>"
    using assms(2) assms(3-5) [folded d(2)] nt [folded d(2)] ne [folded d(2)]
    by (simp add: alarm_effect1_def Let_def flip: d_def)
  then show e: "alarm_effect1 z now s =
           (clearAlarmTimeout1 s)\<lparr>alarm1 := (alarm1 s)\<lparr>nextTrigger := Some f\<rparr>\<rparr>"
    by (simp add: d(2)) (simp add: d_def)
  show "timers1 (alarm_effect1 z now s) = []"
    unfolding e using d by (simp add: d_def)
  then show "timers_tracked1 (alarm_effect1 z now s)"
    by (simp add: timers_tracked1_def)
qed

lemma next_0700:
  "calculateNextTrigger tokyo 1727993100000 ''07:00'' = Some (Some 1728079200000)"
  "computeNextTrigger tokyo 1727993100000 ''07:00'' = Some 1728079200000"
proof -
  have today: "setHours tokyo 1727993100000 7 0 = Some 1727992800000"
    by (simp add: date_eval tokyo_def)
  have tomorrow: "addOneDay tokyo 1727992800000 = Some 1728079200000"
    by (simp add: date_eval tokyo_def)
  show "calculateNextTrigger tokyo 1727993100000 ''07:00'' = Some (Some 1728079200000)"
    using calc_hhmm [of 7 0 tokyo 1727993100000] today tomorrow by (simp add: hhmm_0700)
  show "computeNextTrigger tokyo 1727993100000 ''07:00'' = Some 1728079200000"
    using comp_hhmm [of 7 0 tokyo 1727993100000] today tomorrow by (simp add: hhmm_0700)
qed

lemma home_p1_tracked: "timers_tracked home_p1"
  by (simp add: timers_tracked_def home_p1_def initial_Home_def)

lemma home_p1_alarm:
  "alarm home_p1 = \<lparr>time = ''07:00'', playlistId = Some ''p1'', memo = [], isOn = True,
                      nextTrigger = Some 1728079200000\<rparr>"
  "timerSeq home_p1 = 0"
  by (simp_all add: home_p1_def initial_Home_def)

text \<open>
  Claim C2, as stated, fails on the current revision: its scheduling effect never
  computes a trigger. With the alarm on and the stored \<open>nextTrigger\<close> five minutes in
  the past, the effect keeps that value (not the fresh one \<^verbatim>\<open>calculateNextTrigger\<close>
  gives) and schedules the callback with delay 0; with no \<open>nextTrigger\<close> stored it
  schedules no callback and stores none.
\<close>

theorem arm_keeps_past_trigger:
  "isOn (alarm home_stale) \<and> playlistId (alarm home_stale) = Some ''p1''
   \<and> time (alarm home_stale) = ''07:00''
   \<and> nextTrigger (alarm home_stale) = Some 1727992800000
   \<and> \<not> (1727993100000 < (1727992800000::int))
   \<and> calculateNextTrigger tokyo 1727993100000 ''07:00'' = Some (Some 1728079200000)
   \<and> nextTrigger (alarm (alarm_effect 1727993100000 home_stale)) = Some 1727992800000
   \<and> nextTrigger (alarm (alarm_effect 1727993100000 home_stale)) \<noteq> Some 1728079200000
   \<and> map (delay \<circ> snd) (timers (alarm_effect 1727993100000 home_stale)) = [0]
   \<and> isOn (alarm home_no_trigger) \<and> nextTrigger (alarm home_no_trigger) = None
   \<and> timers (alarm_effect 1727993100000 home_no_trigger) = []
   \<and> nextTrigger (alarm (alarm_effect 1727993100000 home_no_trigger)) = None"
proof -
  have a: "alarm home_stale = \<lparr>time = ''07:00'', playlistId = Some ''p1'', memo = [], isOn = True,
                      nextTrigger = Some 1727992800000\<rparr>"
    by (simp add: home_stale_def home_p1_alarm)
  have tr: "timers_tracked home_stale" "timers_tracked home_no_trigger"
    using home_p1_tracked by (simp_all add: timers_tracked_def home_stale_def home_no_trigger_def)
  have b: "alarm home_no_trigger = \<lparr>time = ''07:00'', playlistId = Some ''p1'', memo = [],
                      isOn = True, nextTrigger = None\<rparr>"
    by (simp add: home_no_trigger_def home_p1_alarm)
  have 1: "timers (alarm_effect 1727993100000 home_stale) =
      [(Suc (timerSeq home_stale),
        \<lparr>delay = max (1727992800000 - 1727993100000) 0, firePlaylistId = ''p1'',
         fireTime = time (alarm home_stale)\<rparr>)]"
    by (rule alarm_effect_scheduled(1) [OF tr(1)]) (simp_all add: a)
  have 2: "timers (alarm_effect 1727993100000 home_no_trigger) = []"
    by (rule alarm_effect_not_scheduled [OF tr(2)]) (simp add: b)
  show ?thesis
    using next_0700(1) by (simp add: alarm_effect_alarm a b 1 2)
qed

text \<open>
  Claim C2, amended. Current revision: with the alarm on and a playlist chosen, the
  scheduling effect leaves the alarm record as it is; when a \<open>nextTrigger\<close> is stored,
  whether in the future or not, exactly one callback is pending afterwards, with
  delay \<open>max (nextTrigger - now) 0\<close>, and running the effect again leaves
  \<open>nextTrigger\<close> unchanged with again exactly one pending callback; when none is
  stored, no callback is pending. Earlier revision: a stored \<open>nextTrigger\<close> strictly
  in the future is reused unchanged with exactly one callback pending, of delay
  \<open>max (nextTrigger - now) 0\<close>; when it is absent or not in the future, the fresh
  value of \<^verbatim>\<open>computeNextTrigger\<close> is stored first, with no callback pending from
  that run, and the effect's next run schedules exactly one callback for it.
  (Pending timers are those the ref tracks; the clock is past the epoch.)
\<close>

theorem arm_schedules_one_timer:
  assumes "timers_tracked s" and "isOn (alarm s)" and "playlistId (alarm s) = Some pid"
    and "pid \<noteq> []"
    and "timers_tracked1 s1" and "hydrated1 s1" and "isOn (alarm1 s1)"
    and "time (alarm1 s1) \<noteq> []" and "\<not> falsy (playlistId (alarm1 s1))" and "0 \<le> now"
  shows "alarm (alarm_effect now s) = alarm s
       \<and> (nextTrigger (alarm s) = None \<longrightarrow> timers (alarm_effect now s) = [])
       \<and> (\<forall>t. nextTrigger (alarm s) = Some t \<longrightarrow>
             timers (alarm_effect now s) =
               [(Suc (timerSeq s),
                 \<lparr>delay = max (t - now) 0, firePlaylistId = pid, fireTime = time (alarm s)\<rparr>)]
             \<and> alarm (alarm_effect now' (alarm_effect now s)) = alarm s
             \<and> map (\<lambda>(h, t). delay t) (timers (alarm_effect now' (alarm_effect now s)))
                 = [max (t - now') 0])
       \<and> (\<forall>e. nextTrigger (alarm1 s1) = Some e \<and> now < e \<longrightarrow>
             alarm1 (alarm_effect1 z now s1) = alarm1 s1
             \<and> map (\<lambda>(h, t). delay t) (timers1 (alarm_effect1 z now s1)) = [max (e - now) 0])
       \<and> (\<forall>f. (nextTrigger (alarm1 s1) = None
                 \<or> (\<exists>e. nextTrigger (alarm1 s1) = Some e \<and> e \<le> now))
               \<and> computeNextTrigger z now (time (alarm1 s1)) = Some f \<and> now < f \<and> now \<le> now'
               \<and> now' < f \<longrightarrow>
             alarm1 (alarm_effect1 z now s1) = (alarm1 s1)\<lparr>nextTrigger := Some f\<rparr>
             \<and> timers1 (alarm_effect1 z now s1) = []
             \<and> alarm1 (alarm_effect1 z now' (alarm_effect1 z now s1))
                 = (alarm1 s1)\<lparr>nextTrigger := Some f\<rparr>
             \<and> map (\<lambda>(h, t). delay t) (timers1 (alarm_effect1 z now' (alarm_effect1 z now s1)))
                 = [max (f - now') 0])"
proof (intro conjI allI impI)
  show "alarm (alarm_effect now s) = alarm s" by (rule alarm_effect_alarm)
next
  assume "nextTrigger (alarm s) = None"
  then show "timers (alarm_effect now s) = []"
    by (rule alarm_effect_not_scheduled [OF assms(1)])
next
  fix t
  assume t: "nextTrigger (alarm s) = Some t"
  note a = alarm_effect_scheduled [OF assms(1-4) t, of now]
  show "timers (alarm_effect now s) =
               [(Suc (timerSeq s),
                 \<lparr>delay = max (t - now) 0, firePlaylistId = pid, fireTime = time (alarm s)\<rparr>)]"
    by (rule a(1))
  show "alarm (alarm_effect now' (alarm_effect now s)) = alarm s"
    by (simp add: alarm_effect_alarm)
  have "timers (alarm_effect now' (alarm_effect now s)) =
          [(Suc (timerSeq (alarm_effect now s)),
            \<lparr>delay = max (t - now') 0, firePlaylistId = pid,
             fireTime = time (alarm (alarm_effect now s))\<rparr>)]"
    by (rule alarm_effect_scheduled(1) [OF a(3)])
       (simp_all add: alarm_effect_alarm assms(2-4) t)
  then show "map (\<lambda>(h, t). delay t) (timers (alarm_effect now' (alarm_effect now s)))
                 = [max (t - now') 0]"
    by simp
next
  fix e
  assume e: "nextTrigger (alarm1 s1) = Some e \<and> now < e"
  then have e0: "e \<noteq> 0" using assms(10) by auto
  note a = alarm_effect1_reuse [OF assms(5-9) _ _ e0, of now z]
  from e a show "alarm1 (alarm_effect1 z now s1) = alarm1 s1"
    "map (\<lambda>(h, t). delay t) (timers1 (alarm_effect1 z now s1)) = [max (e - now) 0]"
    by simp_all
next
  fix f
  assume f: "(nextTrigger (alarm1 s1) = None
                 \<or> (\<exists>e. nextTrigger (alarm1 s1) = Some e \<and> e \<le> now))
               \<and> computeNextTrigger z now (time (alarm1 s1)) = Some f \<and> now < f \<and> now \<le> now'
               \<and> now' < f"
  then have f0: "f \<noteq> 0" using assms(10) by auto
  from f have f1: "nextTrigger (alarm1 s1) = None
                 \<or> (\<exists>e. nextTrigger (alarm1 s1) = Some e \<and> e \<le> now)"
    and f2: "computeNextTrigger z now (time (alarm1 s1)) = Some f" and f3: "now < f"
    and f4: "now' < f"
    by simp_all
  note a = alarm_effect1_fresh [OF assms(5-9) f1 f2 f3]
  have al: "alarm1 (alarm_effect1 z now s1) = (alarm1 s1)\<lparr>nextTrigger := Some f\<rparr>"
    unfolding a(1) by simp
  show "alarm1 (alarm_effect1 z now s1) = (alarm1 s1)\<lparr>nextTrigger := Some f\<rparr>" by (rule al)
  show "timers1 (alarm_effect1 z now s1) = []" by (rule a(2))
  have hy: "hydrated1 (alarm_effect1 z now s1)"
    unfolding a(1) using assms(6) by (simp add: clear1_frame)
  note b = alarm_effect1_reuse [OF a(3) hy, of f now' z]
  have pre: "isOn (alarm1 (alarm_effect1 z now s1))" "time (alarm1 (alarm_effect1 z now s1)) \<noteq> []"
    "\<not> falsy (playlistId (alarm1 (alarm_effect1 z now s1)))"
    "nextTrigger (alarm1 (alarm_effect1 z now s1)) = Some f"
    using assms(7-9) by (simp_all add: al)
  from b(1) [OF pre f4 f0] al
  show "alarm1 (alarm_effect1 z now' (alarm_effect1 z now s1))
                 = (alarm1 s1)\<lparr>nextTrigger := Some f\<rparr>"
    by simp
  from b(2) [OF pre f4 f0]
  show "map (\<lambda>(h, t). delay t) (timers1 (alarm_effect1 z now' (alarm_effect1 z now s1)))
                 = [max (f - now') 0]" .
qed

theorem arm_schedules_one_timer_witness:
  "timers_tracked home_p1 \<and> isOn (alarm home_p1) \<and> playlistId (alarm home_p1) = Some ''p1''
   \<and> nextTrigger (alarm home_p1) = Some 1728079200000
   \<and> alarm (alarm_effect 1727993100000 home_p1) = alarm home_p1
   \<and> timers (alarm_effect 1727993100000 home_p1) =
        [(1, \<lparr>delay = 86100000, firePlaylistId = ''p1'', fireTime = ''07:00''\<rparr>)]
   \<and> alarm (alarm_effect 1727993101000 (alarm_effect 1727993100000 home_p1)) = alarm home_p1
   \<and> map (\<lambda>(h, t). delay t) (timers (alarm_effect 1727993101000 (alarm_effect 1727993100000 home_p1)))
        = [86099000]
   \<and> timers_tracked1 home1_idle \<and> hydrated1 home1_idle \<and> isOn (alarm1 home1_idle)
   \<and> nextTrigger (alarm1 home1_idle) = None
   \<and> computeNextTrigger tokyo 1727993100000 (time (alarm1 home1_idle)) = Some 1728079200000
   \<and> nextTrigger (alarm1 (alarm_effect1 tokyo 1727993100000 home1_idle)) = Some 1728079200000
   \<and> timers1 (alarm_effect1 tokyo 1727993100000 home1_idle) = []
   \<and> map (\<lambda>(h, t). delay t)
        (timers1 (alarm_effect1 tokyo 1727993101000
                   (alarm_effect1 tokyo 1727993100000 home1_idle)))
        = [86099000]"
proof -
  have h1: "timers_tracked1 home1_idle" "hydrated1 home1_idle" "isOn (alarm1 home1_idle)"
    "time (alarm1 home1_idle) \<noteq> []" "\<not> falsy (playlistId (alarm1 home1_idle))"
    "nextTrigger (alarm1 home1_idle) = None" "time (alarm1 home1_idle) = ''07:00''"
    by (simp_all add: home1_idle_def timers_tracked1_def falsy_def)
  have h: "isOn (alarm home_p1)" "playlistId (alarm home_p1) = Some ''p1''" "''p1'' \<noteq> []"
    "nextTrigger (alarm home_p1) = Some 1728079200000" "time (alarm home_p1) = ''07:00''"
    by (simp_all add: home_p1_alarm)
  have c: "computeNextTrigger tokyo 1727993100000 (time (alarm1 home1_idle)) = Some 1728079200000"
    by (simp add: h1(7) next_0700)
  note t = arm_schedules_one_timer [OF home_p1_tracked h(1-3) h1(1-5),
      of 1727993100000 1727993101000 tokyo]
  from t h(4,5) home_p1_alarm(2)
  have v2: "alarm (alarm_effect 1727993100000 home_p1) = alarm home_p1"
    "timers (alarm_effect 1727993100000 home_p1) =
        [(1, \<lparr>delay = 86100000, firePlaylistId = ''p1'', fireTime = ''07:00''\<rparr>)]"
    "alarm (alarm_effect 1727993101000 (alarm_effect 1727993100000 home_p1)) = alarm home_p1"
    "map (\<lambda>(h, t). delay t) (timers (alarm_effect 1727993101000 (alarm_effect 1727993100000 home_p1)))
        = [86099000]"
    by simp_all
  from t h1(6) c
  have v1: "alarm1 (alarm_effect1 tokyo 1727993100000 home1_idle)
              = (alarm1 home1_idle)\<lparr>nextTrigger := Some 1728079200000\<rparr>"
    "timers1 (alarm_effect1 tokyo 1727993100000 home1_idle) = []"
    "map (\<lambda>(h, t). delay t)
        (timers1 (alarm_effect1 tokyo 1727993101000
                   (alarm_effect1 tokyo 1727993100000 home1_idle)))
        = [86099000]"
    by simp_all
  from v1(1) have v1': "nextTrigger (alarm1 (alarm_effect1 tokyo 1727993100000 home1_idle))
        = Some 1728079200000"
    by simp
  from home_p1_tracked h(1,2,4) v2 h1(1,2,3,6) c v1' v1(2,3) show ?thesis by blast
qed

subsection \<open>Walking the playlist\<close>

text \<open>
  \<^const>\<open>settle\<close> is total: the runs of the setup effect always end. Where they end
  is the question. For a playlist whose ids all have media entries they end with
  the playlist finished or with a URL resolved for a track at or after the one
  playback was at; the index only moved forward. With no media entry for the id at
  the cursor they end at once, with the state as it was (\<open>settle_stuck_on_dangling_id\<close>).
\<close>

lemma currentTrack_falsy: "falsy (playbackPlaylistId s) \<Longrightarrow> currentTrack s = None"
  by (simp add: currentTrack_def)

lemma currentTrack_dangling:
  assumes "find_playlist (playbackPlaylistId s) (playlists s) = Some p"
    and "currentTrackIndex s < length (fileIds p)"
    and "find (\<lambda>f. id_f f = fileIds p ! currentTrackIndex s) (mediaFiles s) = None"
  shows "currentTrack s = None"
  using assms by (simp add: currentTrack_def Let_def)

lemma settle_no_track:
  assumes "currentTrack s = None"
  shows "settle s = s\<lparr>currentTrackUrl := None, missingObjectUrl := False\<rparr>"
proof -
  have ts: "track_setup s = s\<lparr>currentTrackUrl := None, missingObjectUrl := False\<rparr>"
    using assms by (simp add: track_setup_def)
  have "setup_deps (track_setup s) = setup_deps s"
    unfolding ts by (rule setup_deps_cong) simp_all
  then show ?thesis
    by (subst settle.simps) (simp add: ts Let_def)
qed

lemma settle_stuck_on_dangling_id:
  assumes "find_playlist (playbackPlaylistId s) (playlists s) = Some p"
    and "currentTrackIndex s < length (fileIds p)"
    and "find (\<lambda>f. id_f f = fileIds p ! currentTrackIndex s) (mediaFiles s) = None"
  shows "settle s = s\<lparr>currentTrackUrl := None, missingObjectUrl := False\<rparr>"
  by (rule settle_no_track) (rule currentTrack_dangling [OF assms])

lemma settle_stopped:
  assumes "falsy (playbackPlaylistId s)"
  shows "settle s = s\<lparr>currentTrackUrl := None, missingObjectUrl := False\<rparr>"
  by (rule settle_no_track) (rule currentTrack_falsy [OF assms])

lemma currentTrack_entry:
  assumes "\<not> falsy (playbackPlaylistId s)"
    and "find_playlist (playbackPlaylistId s) (playlists s) = Some p"
    and "currentTrackIndex s < length (fileIds p)"
    and "entries_ok (mediaFiles s) p"
  shows "\<exists>track. currentTrack s = Some track \<and> id_f track = fileIds p ! currentTrackIndex s
           \<and> id_f track \<noteq> []"
proof -
  let ?i = "fileIds p ! currentTrackIndex s"
  have "?i \<in> set (fileIds p)" using assms(3) by simp
  with assms(4) have ne: "?i \<noteq> []" and f: "find (\<lambda>f. id_f f = ?i) (mediaFiles s) \<noteq> None"
    by (simp_all add: entries_ok_def list_all_iff)
  from f obtain track where t: "find (\<lambda>f. id_f f = ?i) (mediaFiles s) = Some track" by auto
  then have "id_f track = ?i" by (auto simp: find_Some_iff)
  moreover have "currentTrack s = Some track"
    using assms(1-3) ne t by (simp add: currentTrack_def Let_def)
  ultimately show ?thesis using ne by simp
qed

lemma loadTrackUrl_result:
  assumes "loadTrackUrl i s = (r, s1)"
  shows "(r = None \<and> s1 = s) \<or>
         (\<exists>url. r = Some url \<and> map_of (sessionUrls s1) i = Some url)"
  using assms
  by (auto simp: loadTrackUrl_def Let_def map_add_def split: if_splits option.splits)

lemma resolved_at_mono: "resolved_at s p (Suc i) \<Longrightarrow> resolved_at s p i"
  by (simp add: resolved_at_def)

lemma settle_leaves_loading:
  assumes "\<not> falsy (playbackPlaylistId s)"
    and "find_playlist (playbackPlaylistId s) (playlists s) = Some p"
    and "currentTrackIndex s < length (fileIds p)"
    and "entries_ok (mediaFiles s) p"
  shows "finished (settle s) \<or> resolved_at (settle s) p (currentTrackIndex s)"
  using assms
proof (induction s rule: settle.induct)
  case (1 s)
  from currentTrack_entry [OF "1.prems"] obtain track where
    tr: "currentTrack s = Some track" "id_f track = fileIds p ! currentTrackIndex s" by blast
  obtain r s1 where l: "loadTrackUrl (id_f track) s = (r, s1)"
    by (cases "loadTrackUrl (id_f track) s")
  note fr = loadTrackUrl_frame [OF l]
  define s2 where "s2 = s1\<lparr>missingObjectUrl := True\<rparr>"
  have fr2: "playbackPlaylistId s2 = playbackPlaylistId s" "playlists s2 = playlists s"
    "currentTrackIndex s2 = currentTrackIndex s" "mediaFiles s2 = mediaFiles s"
    using fr by (simp_all add: s2_def)
  show ?case
  proof (cases "r = None \<or> r = Some []")
    case False
    then obtain url where u: "r = Some url" "url \<noteq> []" by auto
    have ts: "track_setup s = s1\<lparr>missingObjectUrl := False, currentTrackUrl := Some url\<rparr>"
      using tr(1) l u by (simp add: track_setup_def)
    have same: "setup_deps (track_setup s) = setup_deps s"
      unfolding ts by (rule setup_deps_cong) (simp_all add: fr)
    have st: "settle s = track_setup s"
      by (subst settle.simps) (simp add: same Let_def)
    from loadTrackUrl_result [OF l] u
    have m: "map_of (sessionUrls s1) (fileIds p ! currentTrackIndex s) = Some url"
      by (simp add: tr(2))
    have "resolved_at (settle s) p (currentTrackIndex s)"
      unfolding st ts using m u(2) "1.prems"(3) fr
      by (simp add: resolved_at_def)
    then show ?thesis ..
  next
    case True
    then have ts: "track_setup s = advanceTrack None s2"
      using tr(1) l by (auto simp: track_setup_def s2_def)
    have nf: "\<not> falsy (playbackPlaylistId s2)"
      and fp: "find_playlist (playbackPlaylistId s2) (playlists s2) = Some p"
      using "1.prems"(1,2) by (simp_all add: fr2)
    show ?thesis
    proof (cases "currentTrackIndex s + 1 < length (fileIds p)")
      case True
      have adv: "advanceTrack None s2 = s2\<lparr>currentTrackIndex := currentTrackIndex s + 1\<rparr>"
        using nf fp True by (simp add: advanceTrack_def falsy_def fr2 Let_def)
      define s3 where "s3 = track_setup s"
      have s3: "s3 = s2\<lparr>currentTrackIndex := currentTrackIndex s + 1\<rparr>"
        by (simp add: s3_def ts adv)
      have fr3: "playbackPlaylistId s3 = playbackPlaylistId s" "playlists s3 = playlists s"
        "currentTrackIndex s3 = Suc (currentTrackIndex s)" "mediaFiles s3 = mediaFiles s"
        by (simp_all add: s3 fr2)
      have ch: "setup_deps s3 \<noteq> setup_deps s"
        by (simp add: setup_deps_def fr3)
      have st: "settle s = settle s3"
        by (subst settle.simps) (use ch in \<open>simp add: s3_def Let_def\<close>)
      have "finished (settle s3) \<or> resolved_at (settle s3) p (currentTrackIndex s3)"
        by (rule "1.IH" [OF s3_def ch])
           (use "1.prems" True in \<open>simp_all add: fr3\<close>)
      then show ?thesis
        unfolding st fr3 by (auto dest: resolved_at_mono)
    next
      case False
      have adv: "advanceTrack None s2 = stopPlayback (s2\<lparr>playbackMessage := PlaylistFinished\<rparr>)"
        using nf fp False by (simp add: advanceTrack_def falsy_def fr2 Let_def)
      define s3 where "s3 = track_setup s"
      have s3: "s3 = stopPlayback (s2\<lparr>playbackMessage := PlaylistFinished\<rparr>)"
        by (simp add: s3_def ts adv)
      have p3: "playbackPlaylistId s3 = None" "\<not> isPlaying s3" "playbackMessage s3 = PlaylistFinished"
        by (simp_all add: s3 stopPlayback_def)
      have ch: "setup_deps s3 \<noteq> setup_deps s"
        using "1.prems"(1) by (auto simp: setup_deps_def p3 falsy_def)
      have st: "settle s = settle s3"
        by (subst settle.simps) (use ch in \<open>simp add: s3_def Let_def\<close>)
      have "settle s3 = s3\<lparr>currentTrackUrl := None, missingObjectUrl := False\<rparr>"
        by (rule settle_stopped) (simp add: p3 falsy_def)
      then have "finished (settle s)"
        by (simp add: st finished_def p3)
      then show ?thesis ..
    qed
  qed
qed

lemma home_dangling_eq:
  "home_dangling = (initial_Home False [''a''])
     \<lparr>ready := True, mediaFiles := [track_a], playlists := [list_xa]\<rparr>"
  by (simp add: home_dangling_def load_effect_def Let_def track_a_def merge_alarm_def
      normalize_alarm_def falsy_def DEFAULT_ALARM_def initial_Home_def)

lemma home_dangling_started:
  "startPlayback ''xa'' False home_dangling =
     home_dangling\<lparr>playbackPlaylistId := Some ''xa'', isPlaying := True,
                    playbackMessage := Started\<rparr>"
  by (simp add: startPlayback_def home_dangling_eq list_xa_def track_a_def initial_Home_def)

lemma home_dangling_no_track:
  "currentTrack (startPlayback ''xa'' False home_dangling) = None"
  unfolding home_dangling_started
  by (simp add: currentTrack_def falsy_def find_playlist_def home_dangling_eq list_xa_def
      track_a_def initial_Home_def Let_def)

lemma home_dangling_setup:
  "track_setup (startPlayback ''xa'' False home_dangling) =
     startPlayback ''xa'' False home_dangling"
proof -
  have "track_setup (startPlayback ''xa'' False home_dangling) =
        (startPlayback ''xa'' False home_dangling)
          \<lparr>currentTrackUrl := None, missingObjectUrl := False\<rparr>"
    using home_dangling_no_track by (simp add: track_setup_def)
  also have "\<dots> = startPlayback ''xa'' False home_dangling"
    unfolding home_dangling_started by (simp add: home_dangling_eq initial_Home_def)
  finally show ?thesis .
qed

text \<open>
  Claim C6 fails where a track id has no media entry. Storage holds the playlist
  \<open>[x, a]\<close> and the one media entry \<open>a\<close>, whose blob is stored. After
  \<^verbatim>\<open>startPlayback\<close> the setup effect finds no \<^verbatim>\<open>currentTrack\<close> and returns without
  advancing: the cursor stays at index 0 with \<open>isPlaying\<close> set and no URL, further
  runs of the effect change nothing, and the resolvable track at index 1 is never
  reached.
\<close>

theorem start_hangs_on_dangling_id:
  "settle (startPlayback ''xa'' False home_dangling) = startPlayback ''xa'' False home_dangling
   \<and> track_setup (settle (startPlayback ''xa'' False home_dangling))
        = settle (startPlayback ''xa'' False home_dangling)
   \<and> isPlaying (settle (startPlayback ''xa'' False home_dangling))
   \<and> playbackPlaylistId (settle (startPlayback ''xa'' False home_dangling)) = Some ''xa''
   \<and> currentTrackIndex (settle (startPlayback ''xa'' False home_dangling)) = 0
   \<and> currentTrackUrl (settle (startPlayback ''xa'' False home_dangling)) = None
   \<and> fst (loadTrackUrl ''a'' (startPlayback ''xa'' False home_dangling))
        = Some (createObjectURL ''a'')"
proof -
  let ?s = "startPlayback ''xa'' False home_dangling"
  have st: "settle ?s = ?s"
    by (subst settle.simps) (simp add: home_dangling_setup)
  have f: "isPlaying ?s" "playbackPlaylistId ?s = Some ''xa''" "currentTrackIndex ?s = 0"
    "currentTrackUrl ?s = None"
    unfolding home_dangling_started by (simp_all add: home_dangling_eq initial_Home_def)
  have l: "fst (loadTrackUrl ''a'' ?s) = Some (createObjectURL ''a'')"
    unfolding home_dangling_started
    by (simp add: loadTrackUrl_def home_dangling_eq initial_Home_def Let_def)
  show ?thesis
    unfolding st using home_dangling_setup f l by simp
qed

text \<open>No progress tick runs in that state either.\<close>

lemma dangling_no_tick:
  "progress_interval (startPlayback ''xa'' False home_dangling)
     = startPlayback ''xa'' False home_dangling"
  using home_dangling_no_track by (simp add: progress_interval_def)

end
